theory Spec2Isabelle
  imports Complex_Main "HOL-Library.Finite_Map"
begin

section \<open>Preliminaries\<close>

text \<open>
  The products of \<^verbatim>\<open>mcPrd.h\<close> are templates over a number type \<open>T\<close> (a plain double or
  a number recorded on a differentiation tape). Both, and \<open>Time\<close> (a double), are taken as
  exact reals here: rounding is not part of this development. What a real cannot carry is
  written out as a value of type \<open>fault\<close>:
  \<^item> \<open>OutOfRange\<close>: an unchecked \<^verbatim>\<open>operator[]\<close>, \<^verbatim>\<open>back()\<close> or iterator write outside the
    vector (undefined behaviour in the source, which has no check of its own);
  \<^item> \<open>DivByZero\<close>: a division by zero, whose IEEE result (an infinity or a NaN) is no real
    and stays non-finite through the remaining arithmetic of the payoff.
\<close>

type_synonym Time = real

definition ONE_HOUR :: real where
  "ONE_HOUR = 114469 / 1000000000"

definition ONE_DAY :: real where
  "ONE_DAY = 3773585 / 1000000000"

datatype fault = OutOfRange | DivByZero

definition bindE :: "fault + 'a \<Rightarrow> ('a \<Rightarrow> fault + 'b) \<Rightarrow> fault + 'b" where
  "bindE m f = (case m of Inl e \<Rightarrow> Inl e | Inr x \<Rightarrow> f x)"

text \<open>\<^verbatim>\<open>v[i]\<close> read, \<^verbatim>\<open>v.back()\<close>, \<^verbatim>\<open>v[i] = x\<close> and \<^verbatim>\<open>a / b\<close>.\<close>

definition elem :: "'a list \<Rightarrow> nat \<Rightarrow> fault + 'a" where
  "elem xs i = (if i < length xs then Inr (xs ! i) else Inl OutOfRange)"

definition last_elem :: "'a list \<Rightarrow> fault + 'a" where
  "last_elem xs = (if xs = [] then Inl OutOfRange else Inr (last xs))"

definition assign :: "'a list \<Rightarrow> nat \<Rightarrow> 'a \<Rightarrow> fault + 'a list" where
  "assign xs i v = (if i < length xs then Inr (xs[i := v]) else Inl OutOfRange)"

definition divide_chk :: "real \<Rightarrow> real \<Rightarrow> fault + real" where
  "divide_chk a b = (if b = 0 then Inl DivByZero else Inr (a / b))"

text \<open>
  Modelled from the spec: the simulation requirement of one timeline point
  (\<^verbatim>\<open>SimulDef\<close>, declared in \<^verbatim>\<open>mcBase.h\<close>): numeraire flag, forward maturities, discount
  maturities and rate definitions (start, end, tag). The flag is named \<open>def_numeraire\<close>,
  the name \<open>numeraire\<close> being the field of \<open>Sample\<close> below.
\<close>

record SimulDef =
  def_numeraire :: bool
  forwardMats :: "Time list"
  discountMats :: "Time list"
  liborDefs :: "(Time \<times> Time \<times> string) list"

text \<open>
  Modelled from the spec: one entry of a scenario path (\<^verbatim>\<open>Sample<T>\<close> of \<^verbatim>\<open>mcBase.h\<close>),
  and the path itself (\<^verbatim>\<open>Scenario<T>\<close>, a vector of samples).
\<close>

record Sample =
  numeraire :: real
  forwards :: "real list"
  discounts :: "real list"
  libors :: "real list"

type_synonym Scenario = "Sample list"

text \<open>
  A payoff label is what the constructor streams into its \<^verbatim>\<open>ostringstream\<close>: pieces of
  text and numbers (printed with two fixed decimals by the stream).
\<close>

datatype piece = Txt string | Num real

type_synonym label = "piece list"

section \<open>European\<close>

record European =
  myStrike :: real
  myExerciseDate :: Time
  mySettlementDate :: Time
  myTimeline :: "Time list"
  myDataline :: "SimulDef list"
  myLabels :: "label list"

definition European :: "real \<Rightarrow> Time \<Rightarrow> Time \<Rightarrow> European" where
  "European strike exerciseDate settlementDate =
     \<lparr> European.myStrike = strike,
       European.myExerciseDate = exerciseDate,
       European.mySettlementDate = settlementDate,
       European.myTimeline = [exerciseDate],
       European.myDataline =
         [\<lparr> def_numeraire = True, forwardMats = [settlementDate],
            discountMats = [settlementDate], liborDefs = [] \<rparr>],
       European.myLabels =
         [if settlementDate = exerciseDate
          then [Txt ''call '', Num strike, Txt '' '', Num exerciseDate]
          else [Txt ''call '', Num strike, Txt '' '', Num exerciseDate,
                Txt '' '', Num settlementDate]] \<rparr>"

definition European_payoffs :: "European \<Rightarrow> Scenario \<Rightarrow> real list \<Rightarrow> fault + real list" where
  "European_payoffs p path payoffs =
     bindE (elem path 0) (\<lambda>s.
     bindE (elem (forwards s) 0) (\<lambda>f.
     bindE (elem (discounts s) 0) (\<lambda>d.
     bindE (divide_chk (max (f - European.myStrike p) 0 * d) (numeraire s)) (\<lambda>v.
     assign payoffs 0 v))))"

section \<open>UOC: up-and-out call\<close>

record UOC =
  myStrike :: real
  myBarrier :: real
  myMaturity :: Time
  mySmooth :: real
  myTimeline :: "Time list"
  myDataline :: "SimulDef list"
  myLabels :: "label list"

text \<open>
  The barrier monitoring loop of the constructor,
  \<^verbatim>\<open>while (myMaturity - t > ONE_HOUR) { myTimeline.push_back(t); t += monitorFreq; }\<close>.
  Nothing in the source bounds the number of rounds, so the loop is a partial function:
  \<open>None\<close> stands for a loop that never exits.
\<close>

partial_function (option) UOC_monitoring ::
  "Time \<Rightarrow> Time \<Rightarrow> Time \<Rightarrow> Time list \<Rightarrow> Time list option" where
  "UOC_monitoring maturity monitorFreq t timeline =
     (if maturity - t > ONE_HOUR
      then UOC_monitoring maturity monitorFreq (t + monitorFreq) (timeline @ [t])
      else Some timeline)"

text \<open>A forward at every node, the numeraire on the last node only.\<close>

definition UOC_dataline :: "Time list \<Rightarrow> SimulDef list" where
  "UOC_dataline timeline =
     (let d = map (\<lambda>t. \<lparr> def_numeraire = False, forwardMats = [t],
                          discountMats = [], liborDefs = [] \<rparr>) timeline
      in d[length d - 1 := (last d)\<lparr> def_numeraire := True \<rparr>])"

text \<open>
  The constructor. \<open>systemTime\<close> is a global of \<^verbatim>\<open>mcBase.h\<close> and is taken as a
  parameter.
\<close>

definition UOC :: "Time \<Rightarrow> real \<Rightarrow> real \<Rightarrow> Time \<Rightarrow> Time \<Rightarrow> real \<Rightarrow> UOC option" where
  "UOC systemTime strike barrier maturity monitorFreq smooth =
     (case UOC_monitoring maturity monitorFreq (systemTime + monitorFreq) [systemTime] of
        None \<Rightarrow> None
      | Some monitored \<Rightarrow>
          let timeline = monitored @ [maturity];
              call = [Txt ''call '', Num maturity, Txt '' '', Num strike]
          in Some \<lparr> UOC.myStrike = strike,
                    UOC.myBarrier = barrier,
                    UOC.myMaturity = maturity,
                    UOC.mySmooth = smooth,
                    UOC.myTimeline = timeline,
                    UOC.myDataline = UOC_dataline timeline,
                    UOC.myLabels =
                      [call @ [Txt '' up and out '', Num barrier, Txt '' monitoring freq '',
                               Num monitorFreq, Txt '' smooth '', Num smooth],
                       call] \<rparr>)"

text \<open>
  The loop of \<^verbatim>\<open>UOC::payoffs\<close> over the nodes of the path, with the running value of
  \<^verbatim>\<open>alive\<close>; the \<^verbatim>\<open>break\<close> returns at once, without a look at the remaining nodes.
\<close>

fun UOC_alive :: "real \<Rightarrow> real \<Rightarrow> real \<Rightarrow> Scenario \<Rightarrow> fault + real" where
  "UOC_alive barrier smooth alive [] = Inr alive"
| "UOC_alive barrier smooth alive (scen # rest) =
     (let twoSmooth = 2 * smooth; barSmooth = barrier + smooth in
      bindE (elem (forwards scen) 0) (\<lambda>f.
        if f > barSmooth then Inr 0
        else if f > barrier - smooth
        then bindE (divide_chk (barSmooth - f) twoSmooth) (\<lambda>r.
               UOC_alive barrier smooth (alive * r) rest)
        else UOC_alive barrier smooth alive rest))"

definition UOC_payoffs :: "UOC \<Rightarrow> Scenario \<Rightarrow> real list \<Rightarrow> fault + real list" where
  "UOC_payoffs p path payoffs =
     bindE (elem path 0) (\<lambda>first.
     bindE (elem (forwards first) 0) (\<lambda>f0.
       let smooth = f0 * UOC.mySmooth p in
       bindE (UOC_alive (UOC.myBarrier p) smooth 1 path) (\<lambda>alive.
       bindE (last_elem path) (\<lambda>final.
       bindE (elem (forwards final) 0) (\<lambda>fT.
       bindE (divide_chk (max (fT - UOC.myStrike p) 0) (numeraire final)) (\<lambda>vanilla.
       bindE (assign payoffs 1 vanilla) (\<lambda>payoffs1.
       bindE (elem payoffs1 1) (\<lambda>p1.
       assign payoffs1 0 (alive * p1)))))))))"

section \<open>Europeans: a strip of calls\<close>

record Europeans =
  myMaturities :: "Time list"
  myStrikes :: "real list list"
  myDataline :: "SimulDef list"
  myLabels :: "label list"

text \<open>
  The constructor takes a \<^verbatim>\<open>std::map\<close> from maturity to strikes: a finite map, iterated in
  ascending order of its keys (\<open>sorted_list_of_fmap\<close>).
\<close>

definition Europeans :: "(Time, real list) fmap \<Rightarrow> Europeans" where
  "Europeans options =
     (let entries = sorted_list_of_fmap options;
          maturities = map fst entries
      in \<lparr> Europeans.myMaturities = maturities,
           Europeans.myStrikes = map snd entries,
           Europeans.myDataline =
             map (\<lambda>t. \<lparr> def_numeraire = True, forwardMats = [t],
                         discountMats = [], liborDefs = [] \<rparr>) maturities,
           Europeans.myLabels =
             concat (map (\<lambda>option.
               map (\<lambda>strike. [Txt ''call '', Num (fst option), Txt '' '', Num strike])
                 (snd option)) entries) \<rparr>)"

text \<open>
  \<^verbatim>\<open>std::transform\<close> over the strikes of one maturity, writing through the output iterator
  (position \<open>pos\<close> of the buffer).
\<close>

fun Europeans_transform ::
  "real \<Rightarrow> real \<Rightarrow> real list \<Rightarrow> nat \<Rightarrow> real list \<Rightarrow> fault + real list" where
  "Europeans_transform spot num [] pos payoffs = Inr payoffs"
| "Europeans_transform spot num (k # ks) pos payoffs =
     bindE (divide_chk (max (spot - k) 0) num) (\<lambda>v.
     bindE (assign payoffs pos v) (\<lambda>payoffs'.
     Europeans_transform spot num ks (pos + 1) payoffs'))"

text \<open>The loop \<^verbatim>\<open>for (size_t i = 0; i < numT; ++i)\<close>, over the indices still to visit.\<close>

fun Europeans_loop ::
  "Europeans \<Rightarrow> Scenario \<Rightarrow> nat list \<Rightarrow> nat \<Rightarrow> real list \<Rightarrow> fault + real list" where
  "Europeans_loop p path [] payoffIt payoffs = Inr payoffs"
| "Europeans_loop p path (i # rest) payoffIt payoffs =
     bindE (elem (Europeans.myStrikes p) i) (\<lambda>strikes.
     bindE (elem path i) (\<lambda>s.
     bindE (elem (forwards s) 0) (\<lambda>spot.
     bindE (Europeans_transform spot (numeraire s) strikes payoffIt payoffs) (\<lambda>payoffs'.
     Europeans_loop p path rest (payoffIt + length strikes) payoffs'))))"

definition Europeans_payoffs :: "Europeans \<Rightarrow> Scenario \<Rightarrow> real list \<Rightarrow> fault + real list" where
  "Europeans_payoffs p path payoffs =
     (let numT = length (Europeans.myMaturities p)
      in Europeans_loop p path [0..<numT] 0 payoffs)"

section \<open>ContingentBond\<close>

record ContingentBond =
  myMaturity :: Time
  myCpn :: real
  mySmooth :: real
  myTimeline :: "Time list"
  myDataline :: "SimulDef list"
  myLabels :: "label list"
  myDt :: "real list"

text \<open>
  The payment schedule loop of the constructor,
  \<^verbatim>\<open>while (myMaturity - t > ONE_DAY) { myDt.push_back(t - myTimeline.back());
  myTimeline.push_back(t); t += payFreq; }\<close>, on the pair of \<^verbatim>\<open>myTimeline\<close> and
  \<^verbatim>\<open>myDt\<close>; \<open>None\<close> stands for a loop that never exits.
\<close>

partial_function (option) ContingentBond_schedule ::
  "Time \<Rightarrow> Time \<Rightarrow> Time \<Rightarrow> Time list \<Rightarrow> real list \<Rightarrow> (Time list \<times> real list) option" where
  "ContingentBond_schedule maturity payFreq t timeline dt =
     (if maturity - t > ONE_DAY
      then ContingentBond_schedule maturity payFreq (t + payFreq)
             (timeline @ [t]) (dt @ [t - last timeline])
      else Some (timeline, dt))"

text \<open>
  A forward at every node, a libor from each node to the next on every node but the last,
  the numeraire on every node but the first.
\<close>

definition ContingentBond_dataline :: "Time list \<Rightarrow> SimulDef list" where
  "ContingentBond_dataline timeline =
     (let n = length timeline
      in map (\<lambda>i. \<lparr> def_numeraire = (i > 0),
                     forwardMats = [timeline ! i],
                     discountMats = [],
                     liborDefs = (if i < n - 1
                                  then [(timeline ! i, timeline ! (i + 1), ''libor'')]
                                  else []) \<rparr>) [0..<n])"

definition ContingentBond :: "Time \<Rightarrow> Time \<Rightarrow> real \<Rightarrow> Time \<Rightarrow> real \<Rightarrow> ContingentBond option" where
  "ContingentBond systemTime maturity cpn payFreq smooth =
     (case ContingentBond_schedule maturity payFreq (systemTime + payFreq) [systemTime] [] of
        None \<Rightarrow> None
      | Some (scheduled, dt) \<Rightarrow>
          let timeline = scheduled @ [maturity]
          in Some \<lparr> ContingentBond.myMaturity = maturity,
                    ContingentBond.myCpn = cpn,
                    ContingentBond.mySmooth = smooth,
                    ContingentBond.myTimeline = timeline,
                    ContingentBond.myDataline = ContingentBond_dataline timeline,
                    ContingentBond.myLabels =
                      [[Txt ''contingent bond '', Num maturity, Txt '' '', Num cpn]],
                    ContingentBond.myDt = dt @ [maturity - last scheduled] \<rparr>)"

text \<open>
  The smoothed digital of one period (the \<^verbatim>\<open>if\<close> / \<^verbatim>\<open>else if\<close> / \<^verbatim>\<open>else\<close> of lines
  520 to 531).
\<close>

definition ContingentBond_digital :: "real \<Rightarrow> real \<Rightarrow> real \<Rightarrow> fault + real" where
  "ContingentBond_digital smooth s0 s1 =
     (let twoSmooth = 2 * smooth in
      if s1 - s0 > smooth then Inr 1
      else if s1 - s0 < - smooth then Inr 0
      else divide_chk (s1 - s0 + smooth) twoSmooth)"

text \<open>One round of the loop over the periods: what is added to \<^verbatim>\<open>payoffs[0]\<close>.\<close>

definition ContingentBond_period :: "ContingentBond \<Rightarrow> real \<Rightarrow> Scenario \<Rightarrow> nat \<Rightarrow> fault + real" where
  "ContingentBond_period p smooth path i =
     bindE (elem path i) (\<lambda>start.
     bindE (elem path (i + 1)) (\<lambda>end.
     bindE (elem (forwards start) 0) (\<lambda>s0.
     bindE (elem (forwards end) 0) (\<lambda>s1.
     bindE (ContingentBond_digital smooth s0 s1) (\<lambda>digital.
     bindE (elem (libors start) 0) (\<lambda>libor.
     bindE (elem (ContingentBond.myDt p) i) (\<lambda>dt.
     divide_chk (digital * (libor + ContingentBond.myCpn p) * dt) (numeraire end))))))))"

fun ContingentBond_loop ::
  "ContingentBond \<Rightarrow> real \<Rightarrow> Scenario \<Rightarrow> nat list \<Rightarrow> real list \<Rightarrow> fault + real list" where
  "ContingentBond_loop p smooth path [] payoffs = Inr payoffs"
| "ContingentBond_loop p smooth path (i # rest) payoffs =
     bindE (ContingentBond_period p smooth path i) (\<lambda>coupon.
     bindE (elem payoffs 0) (\<lambda>sum.
     bindE (assign payoffs 0 (sum + coupon)) (\<lambda>payoffs'.
     ContingentBond_loop p smooth path rest payoffs')))"

definition ContingentBond_payoffs ::
  "ContingentBond \<Rightarrow> Scenario \<Rightarrow> real list \<Rightarrow> fault + real list" where
  "ContingentBond_payoffs p path payoffs =
     bindE (elem path 0) (\<lambda>first.
     bindE (elem (forwards first) 0) (\<lambda>f0.
       let smooth = f0 * ContingentBond.mySmooth p;
           n = length path - 1
       in bindE (assign payoffs 0 0) (\<lambda>payoffs0.
          bindE (ContingentBond_loop p smooth path [0..<n] payoffs0) (\<lambda>payoffs1.
          bindE (last_elem path) (\<lambda>final.
          bindE (divide_chk 1 (numeraire final)) (\<lambda>redemption.
          bindE (elem payoffs1 0) (\<lambda>sum.
          assign payoffs1 0 (sum + redemption))))))))"

section \<open>The specification's formulas\<close>

text \<open>
  The knock-out walk in the specification's words: \<open>alive\<close> starts from the given value
  and the forwards are visited in time order; above \<open>barrier + smooth\<close> it is 0 and the
  walk ends, above \<open>barrier - smooth\<close> it is multiplied by the ramp
  \<open>(barrier + smooth - forward) / (2 * smooth)\<close>, otherwise it is unchanged.
\<close>

fun alive_spec :: "real \<Rightarrow> real \<Rightarrow> real \<Rightarrow> real list \<Rightarrow> real" where
  "alive_spec barrier smooth alive [] = alive"
| "alive_spec barrier smooth alive (f # fs) =
     (if f > barrier + smooth then 0
      else if f > barrier - smooth
      then alive_spec barrier smooth (alive * ((barrier + smooth - f) / (2 * smooth))) fs
      else alive_spec barrier smooth alive fs)"

text \<open>
  The coverages of a timeline in the specification's words: one per interval, the
  year fraction from each node to the next.
\<close>

definition coverages :: "Time list \<Rightarrow> real list" where
  "coverages timeline = map (\<lambda>i. timeline ! (i + 1) - timeline ! i) [0..<length timeline - 1]"

text \<open>
  The smoothed digital in the specification's words: 1 above \<open>smooth\<close>, 0 below
  \<open>- smooth\<close>, the ramp \<open>(s1 - s0 + smooth) / (2 * smooth)\<close> in between.
\<close>

definition digital_spec :: "real \<Rightarrow> real \<Rightarrow> real \<Rightarrow> real" where
  "digital_spec smooth s0 s1 =
     (if s1 - s0 > smooth then 1
      else if s1 - s0 < - smooth then 0
      else (s1 - s0 + smooth) / (2 * smooth))"

text \<open>The forward (spot) observation of a node: the first forward it carries.\<close>

definition spot :: "Sample \<Rightarrow> real" where
  "spot s = forwards s ! 0"

text \<open>
  The maturity-major layout in the specification's words: for each index of a maturity in
  turn, for each strike of that maturity in the order given,
  \<open>max (forward - strike) 0 / numeraire\<close> of the node of that maturity.
\<close>

definition strip_spec :: "Scenario \<Rightarrow> real list list \<Rightarrow> nat list \<Rightarrow> real list" where
  "strip_spec path strikes is =
     concat (map (\<lambda>i. map (\<lambda>k. max (spot (path ! i) - k) 0 / numeraire (path ! i)) (strikes ! i)) is)"

section \<open>Example inputs\<close>

text \<open>
  Nodes with one forward (and one libor), an up-and-out call of strike 90 and barrier 100
  on the timeline \<open>[0, 1]\<close> without and with smoothing, and a two-period contingent bond
  with and without smoothing, as the constructors build them.
\<close>

definition node :: "real \<Rightarrow> real \<Rightarrow> Sample" where
  "node f n = \<lparr> numeraire = n, forwards = [f], discounts = [], libors = [] \<rparr>"

definition uoc_hard :: UOC where
  "uoc_hard =
     \<lparr> UOC.myStrike = 90, UOC.myBarrier = 100, UOC.myMaturity = 1, UOC.mySmooth = 0,
       UOC.myTimeline = [0, 1],
       UOC.myDataline =
         [\<lparr> def_numeraire = False, forwardMats = [0], discountMats = [], liborDefs = [] \<rparr>,
          \<lparr> def_numeraire = True, forwardMats = [1], discountMats = [], liborDefs = [] \<rparr>],
       UOC.myLabels =
         [[Txt ''call '', Num 1, Txt '' '', Num 90, Txt '' up and out '', Num 100,
           Txt '' monitoring freq '', Num 1, Txt '' smooth '', Num 0],
          [Txt ''call '', Num 1, Txt '' '', Num 90]] \<rparr>"

definition uoc_soft :: UOC where
  "uoc_soft =
     uoc_hard \<lparr> UOC.mySmooth := 1 / 10,
                UOC.myLabels :=
                  [[Txt ''call '', Num 1, Txt '' '', Num 90, Txt '' up and out '', Num 100,
                    Txt '' monitoring freq '', Num 1, Txt '' smooth '', Num (1 / 10)],
                   [Txt ''call '', Num 1, Txt '' '', Num 90]] \<rparr>"

definition bond_semi :: ContingentBond where
  "bond_semi =
     \<lparr> ContingentBond.myMaturity = 1, ContingentBond.myCpn = 3 / 100,
       ContingentBond.mySmooth = 1 / 10,
       ContingentBond.myTimeline = [0, 1 / 2, 1],
       ContingentBond.myDataline =
         [\<lparr> def_numeraire = False, forwardMats = [0], discountMats = [],
            liborDefs = [(0, 1 / 2, ''libor'')] \<rparr>,
          \<lparr> def_numeraire = True, forwardMats = [1 / 2], discountMats = [],
            liborDefs = [(1 / 2, 1, ''libor'')] \<rparr>,
          \<lparr> def_numeraire = True, forwardMats = [1], discountMats = [], liborDefs = [] \<rparr>],
       ContingentBond.myLabels = [[Txt ''contingent bond '', Num 1, Txt '' '', Num (3 / 100)]],
       ContingentBond.myDt = [1 / 2, 1 / 2] \<rparr>"

definition bond_hard :: ContingentBond where
  "bond_hard = bond_semi \<lparr> ContingentBond.mySmooth := 0 \<rparr>"

definition coupon_node :: "real \<Rightarrow> real \<Rightarrow> real \<Rightarrow> Sample" where
  "coupon_node f l n = \<lparr> numeraire = n, forwards = [f], discounts = [], libors = [l] \<rparr>"

text \<open>A strip of three calls: strikes 90 and 100 at maturity 1, strike 95 at maturity 2.\<close>

definition strip_pair :: Europeans where
  "strip_pair = Europeans (fmupd 1 [90, 100] (fmupd 2 [95] fmempty))"

section \<open>Properties\<close>

subsection \<open>Helpers\<close>

lemma bindE_Inr [simp]: "bindE (Inr x) f = f x"
  by (simp add: bindE_def)

lemma bindE_Inl [simp]: "bindE (Inl e) f = Inl e"
  by (simp add: bindE_def)

lemma elem_in_range [simp]: "i < length xs \<Longrightarrow> elem xs i = Inr (xs ! i)"
  by (simp add: elem_def)

lemma elem_Cons_0 [simp]: "elem (x # xs) 0 = Inr x"
  by (simp add: elem_def)

lemma elem_Nil [simp]: "elem [] i = Inl OutOfRange"
  by (simp add: elem_def)

lemma last_elem_nonempty [simp]: "xs \<noteq> [] \<Longrightarrow> last_elem xs = Inr (last xs)"
  by (simp add: last_elem_def)

lemma assign_in_range [simp]: "i < length xs \<Longrightarrow> assign xs i v = Inr (xs[i := v])"
  by (simp add: assign_def)

lemma divide_chk_nonzero [simp]: "b \<noteq> 0 \<Longrightarrow> divide_chk a b = Inr (a / b)"
  by (simp add: divide_chk_def)

lemma divide_chk_zero [simp]: "divide_chk a 0 = Inl DivByZero"
  by (simp add: divide_chk_def)

subsection \<open>European payoff\<close>

text \<open>
  C5: on a one-node path that carries the forward and the discount of the settlement date
  and a nonzero numeraire, \<open>European_payoffs\<close> changes exactly slot 0 of the buffer, to
  \<open>max (forward - strike) 0 * discount / numeraire\<close>; with forward \<open>F\<close>, discount 1 and
  numeraire \<open>N\<close> the value is \<open>max (F - K) 0 / N\<close>.
\<close>

theorem European_payoffs_value:
  assumes "forwards s \<noteq> []" and "discounts s \<noteq> []" and "numeraire s \<noteq> 0"
    and "payoffs \<noteq> []"
  shows "European_payoffs p [s] payoffs =
           Inr (payoffs[0 := max (forwards s ! 0 - European.myStrike p) 0
                              * (discounts s ! 0) / numeraire s])
         \<and> (discounts s ! 0 = 1 \<longrightarrow>
              European_payoffs p [s] payoffs =
                Inr (payoffs[0 := max (forwards s ! 0 - European.myStrike p) 0 / numeraire s]))"
  using assms by (simp add: European_payoffs_def)

theorem European_payoffs_value_witness:
  "European_payoffs (European 100 1 1)
     [\<lparr> numeraire = 2, forwards = [110], discounts = [1], libors = [] \<rparr>] [0, 7] = Inr [5, 7]"
  using European_payoffs_value
    [of "\<lparr> numeraire = 2, forwards = [110], discounts = [1], libors = [] \<rparr>"
      "[0, 7]" "European 100 1 1"]
  by (simp add: European_def)

subsection \<open>UOC payoff\<close>

lemma UOC_alive_walk:
  "\<forall>s \<in> set path. forwards s \<noteq> [] \<Longrightarrow>
   UOC_alive barrier smooth alive path = Inr (alive_spec barrier smooth alive (map spot path))"
proof (induction path arbitrary: alive)
  case Nil
  show ?case by simp
next
  case (Cons scen rest)
  have rest: "\<And>a. UOC_alive barrier smooth a rest = Inr (alive_spec barrier smooth a (map spot rest))"
    using Cons by simp
  have fwd: "elem (forwards scen) 0 = Inr (spot scen)"
    using Cons.prems by (simp add: spot_def)
  show ?case
  proof (cases "spot scen > barrier + smooth")
    case True
    then show ?thesis by (simp add: fwd)
  next
    case above: False
    show ?thesis
    proof (cases "spot scen > barrier - smooth")
      case True
      with above have "2 * smooth \<noteq> 0" by simp
      with True above show ?thesis by (simp add: fwd rest)
    next
      case False
      with above show ?thesis by (simp add: fwd rest)
    qed
  qed
qed

lemma UOC_alive_break:
  "\<forall>s \<in> set pre. forwards s \<noteq> [] \<Longrightarrow> forwards x \<noteq> [] \<Longrightarrow> spot x > barrier + smooth \<Longrightarrow>
   UOC_alive barrier smooth alive (pre @ x # post) = Inr 0"
proof (induction pre arbitrary: alive)
  case Nil
  then show ?case by (simp add: spot_def)
next
  case (Cons scen pre)
  have rest: "\<And>a. UOC_alive barrier smooth a (pre @ x # post) = Inr 0"
    using Cons by simp
  have fwd: "elem (forwards scen) 0 = Inr (spot scen)"
    using Cons.prems by (simp add: spot_def)
  show ?case
  proof (cases "spot scen > barrier - smooth \<and> \<not> spot scen > barrier + smooth")
    case True
    then have "2 * smooth \<noteq> 0" by simp
    with True show ?thesis by (simp add: fwd rest)
  next
    case False
    then show ?thesis by (auto simp add: fwd rest Let_def)
  qed
qed

lemma alive_spec_below:
  "\<forall>f \<in> set fs. f \<le> barrier - smooth \<Longrightarrow> 0 \<le> smooth \<Longrightarrow>
   alive_spec barrier smooth alive (fs @ gs) = alive_spec barrier smooth alive gs"
  by (induction fs arbitrary: alive) auto

lemma UOC_payoffs_eval:
  assumes "path \<noteq> []" and "\<forall>s \<in> set path. forwards s \<noteq> []"
    and "numeraire (last path) \<noteq> 0" and "2 \<le> length payoffs"
  shows "UOC_payoffs p path payoffs =
           Inr (payoffs[1 := max (spot (last path) - UOC.myStrike p) 0 / numeraire (last path),
                        0 := alive_spec (UOC.myBarrier p) (spot (hd path) * UOC.mySmooth p) 1
                               (map spot path)
                             * (max (spot (last path) - UOC.myStrike p) 0 / numeraire (last path))])"
proof -
  obtain first rest where path: "path = first # rest"
    using assms(1) by (cases path) auto
  have f0: "elem (forwards first) 0 = Inr (spot first)"
    using assms(2) path by (simp add: spot_def)
  have fT: "elem (forwards (last path)) 0 = Inr (spot (last path))"
    using assms(1,2) by (simp add: spot_def)
  have len: "1 < length payoffs" "0 < length payoffs"
    using assms(4) by linarith+
  show ?thesis
    unfolding UOC_payoffs_def
    using assms(1,3) len fT
    by (simp add: path [symmetric] UOC_alive_walk [OF assms(2)] Let_def)
      (simp add: path f0 UOC_alive_walk [OF assms(2), unfolded path])
qed

text \<open>
  C1 (as amended): on a non-empty path whose nodes each carry a forward, with a nonzero
  numeraire on the last node and a buffer of two slots or more, \<open>UOC_payoffs\<close> writes
  \<open>vanilla = max (forward_last - strike) 0 / numeraire_last\<close> to slot 1 and
  \<open>alive * vanilla\<close> to slot 0, where \<open>alive\<close> is the walk \<open>alive_spec\<close> from 1 over the
  forwards in time order. A node above \<open>barrier + smooth\<close> gives \<open>alive = 0\<close> whatever
  follows it (the nodes after it are not read). When \<open>smooth\<close> is positive and every
  earlier node is at or below \<open>barrier - smooth\<close>, a last forward equal to the barrier
  gives \<open>alive = 1/2\<close>, one at \<open>barrier - smooth\<close> gives 1 and one at \<open>barrier + smooth\<close>
  gives 0.
\<close>

theorem UOC_payoffs_smooth_barrier:
  assumes "path \<noteq> []" and "\<forall>s \<in> set path. forwards s \<noteq> []"
    and "numeraire (last path) \<noteq> 0" and "2 \<le> length payoffs"
  shows "let barrier = UOC.myBarrier p;
             smooth = spot (hd path) * UOC.mySmooth p;
             vanilla = max (spot (last path) - UOC.myStrike p) 0 / numeraire (last path);
             alive = alive_spec barrier smooth 1 (map spot path)
         in UOC_payoffs p path payoffs = Inr (payoffs[1 := vanilla, 0 := alive * vanilla])
          \<and> (\<forall>before scen after.
                path = before @ scen # after \<and> spot scen > barrier + smooth \<longrightarrow>
                alive = 0 \<and> (\<forall>other. UOC_alive barrier smooth 1 (before @ scen # other) = Inr 0))
          \<and> (\<forall>before scen.
                0 < smooth \<and> path = before @ [scen]
                \<and> (\<forall>s \<in> set before. spot s \<le> barrier - smooth) \<longrightarrow>
                (spot scen = barrier \<longrightarrow> alive = 1 / 2)
                \<and> (spot scen = barrier - smooth \<longrightarrow> alive = 1)
                \<and> (spot scen = barrier + smooth \<longrightarrow> alive = 0))"
proof -
  define barrier where "barrier = UOC.myBarrier p"
  define smooth where "smooth = spot (hd path) * UOC.mySmooth p"
  define alive where "alive = alive_spec barrier smooth 1 (map spot path)"
  have walk: "UOC_alive barrier smooth 1 path = Inr alive"
    using assms(2) by (simp add: UOC_alive_walk alive_def)
  have break: "alive = 0 \<and> (\<forall>other. UOC_alive barrier smooth 1 (before @ scen # other) = Inr 0)"
    if "path = before @ scen # after" and "spot scen > barrier + smooth"
    for before scen after
  proof -
    have wf: "\<forall>s \<in> set before. forwards s \<noteq> []" "forwards scen \<noteq> []"
      using assms(2) that(1) by simp_all
    have "UOC_alive barrier smooth 1 (before @ scen # other) = Inr 0" for other
      using wf that(2) by (rule UOC_alive_break)
    moreover from this [of after] have "alive = 0"
      using walk that(1) by simp
    ultimately show ?thesis by simp
  qed
  have ramp: "(spot scen = barrier \<longrightarrow> alive = 1 / 2)
              \<and> (spot scen = barrier - smooth \<longrightarrow> alive = 1)
              \<and> (spot scen = barrier + smooth \<longrightarrow> alive = 0)"
    if "0 < smooth" and "path = before @ [scen]"
      and "\<forall>s \<in> set before. spot s \<le> barrier - smooth"
    for before scen
  proof -
    have "alive = alive_spec barrier smooth 1 (map spot before @ [spot scen])"
      by (simp add: alive_def that(2))
    also have "\<dots> = alive_spec barrier smooth 1 [spot scen]"
      using that(1,3) by (intro alive_spec_below) auto
    finally show ?thesis
      using that(1) by auto
  qed
  show ?thesis
    using UOC_payoffs_eval [OF assms, of p] break ramp
    unfolding Let_def barrier_def [symmetric] smooth_def [symmetric] alive_def [symmetric]
    by blast
qed

theorem UOC_payoffs_smooth_barrier_witness:
  "UOC 0 90 100 1 1 (1 / 10) = Some uoc_soft
   \<and> UOC_payoffs uoc_soft [node 80 1, node 100 1] [0, 0] = Inr [5, 10]
   \<and> alive_spec 100 8 1 [80, 100] = 1 / 2"
  using UOC_payoffs_smooth_barrier [of "[node 80 1, node 100 1]" "[0, 0]" uoc_soft]
  by (simp add: uoc_soft_def uoc_hard_def node_def spot_def
      UOC_def UOC_monitoring.simps ONE_HOUR_def UOC_dataline_def)

text \<open>
  With a smoothing fraction of 0 the band is empty: a forward equal to the barrier is
  neither above \<open>barrier + smooth\<close> nor above \<open>barrier - smooth\<close>, and \<open>alive\<close> stays 1.
\<close>

theorem UOC_alive_half_counterexample:
  "UOC 0 90 100 1 1 0 = Some uoc_hard
   \<and> UOC_payoffs uoc_hard [node 80 1, node 100 1] [0, 0] = Inr [10, 10]
   \<and> UOC_alive (UOC.myBarrier uoc_hard) (spot (node 80 1) * UOC.mySmooth uoc_hard) 1
        [node 80 1, node 100 1] = Inr 1
   \<and> UOC_payoffs uoc_hard [node 100 1] [0, 0] = Inr [10, 10]
   \<and> UOC_alive (UOC.myBarrier uoc_hard) (spot (node 100 1) * UOC.mySmooth uoc_hard) 1
        [node 100 1] = Inr 1"
  by (simp add: UOC_def UOC_monitoring.simps ONE_HOUR_def UOC_dataline_def uoc_hard_def
      UOC_payoffs_def node_def spot_def)

text \<open>
  C6: whenever \<open>UOC_payoffs\<close> is evaluated on a path (non-empty, a forward on every node, a
  nonzero numeraire on the last), its slot 1 equals slot 0 of \<open>European_payoffs\<close> for the
  European of the same strike and maturity on the one-node path made of the last node
  with a discount factor of 1, and both are
  \<open>max (forward_last - strike) 0 / numeraire_last\<close>.
\<close>

theorem UOC_vanilla_is_European:
  assumes "path \<noteq> []" and "\<forall>s \<in> set path. forwards s \<noteq> []"
    and "numeraire (last path) \<noteq> 0" and "2 \<le> length payoffs" and "out \<noteq> []"
  shows "\<exists>r e. UOC_payoffs u path payoffs = Inr r
           \<and> European_payoffs (European (UOC.myStrike u) (UOC.myMaturity u) (UOC.myMaturity u))
                [(last path)\<lparr> discounts := [1] \<rparr>] out = Inr e
           \<and> r ! 1 = e ! 0
           \<and> e ! 0 = max (spot (last path) - UOC.myStrike u) 0 / numeraire (last path)"
proof -
  have fwd: "forwards (last path) \<noteq> []"
    using assms(1,2) by simp
  have len: "1 < length payoffs" "0 < length out"
    using assms(4,5) by simp_all
  have "European_payoffs (European (UOC.myStrike u) (UOC.myMaturity u) (UOC.myMaturity u))
          [(last path)\<lparr> discounts := [1] \<rparr>] out
        = Inr (out[0 := max (spot (last path) - UOC.myStrike u) 0 / numeraire (last path)])"
    using fwd assms(3) len(2) by (simp add: European_payoffs_def European_def spot_def)
  then show ?thesis
    using UOC_payoffs_eval [OF assms(1-4), of u] len by simp
qed

theorem UOC_vanilla_is_European_witness:
  "\<exists>r e. UOC_payoffs uoc_soft [node 80 1, node 120 2] [0, 0] = Inr r
         \<and> European_payoffs (European 90 1 1) [(node 120 2)\<lparr> discounts := [1] \<rparr>] [0] = Inr e
         \<and> r ! 1 = e ! 0 \<and> e ! 0 = 15"
  using UOC_vanilla_is_European [of "[node 80 1, node 120 2]" "[0, 0]" "[0]" uoc_soft]
  by (simp add: uoc_soft_def uoc_hard_def node_def spot_def)

subsection \<open>Timelines of UOC and ContingentBond\<close>

lemma UOC_monitoring_grid:
  assumes "0 < freq"
  shows "\<exists>k. UOC_monitoring m freq t ns = Some (ns @ map (\<lambda>i. t + real i * freq) [0..<k])
           \<and> (\<forall>i<k. m - (t + real i * freq) > ONE_HOUR)
           \<and> \<not> m - (t + real k * freq) > ONE_HOUR"
proof (induction "nat \<lceil>(m - t - ONE_HOUR) / freq\<rceil>" arbitrary: t ns)
  case 0
  then have "(m - t - ONE_HOUR) / freq \<le> 0" by simp
  with assms have stop: "\<not> m - t > ONE_HOUR"
    by (simp add: divide_le_0_iff)
  then have "UOC_monitoring m freq t ns = Some ns"
    by (subst UOC_monitoring.simps) simp
  with stop show ?case
    by (intro exI [of _ 0]) simp
next
  case (Suc n)
  then have "0 < (m - t - ONE_HOUR) / freq" by linarith
  with assms have go: "m - t > ONE_HOUR"
    by (simp add: zero_less_divide_iff)
  have "(m - (t + freq) - ONE_HOUR) / freq = (m - t - ONE_HOUR) / freq - 1"
    using assms by (simp add: field_simps)
  then have "n = nat \<lceil>(m - (t + freq) - ONE_HOUR) / freq\<rceil>"
    using Suc(2) by simp
  from Suc(1) [OF this, of "ns @ [t]"]
  obtain k where k: "UOC_monitoring m freq (t + freq) (ns @ [t])
        = Some ((ns @ [t]) @ map (\<lambda>i. t + freq + real i * freq) [0..<k])"
      "\<forall>i<k. m - (t + freq + real i * freq) > ONE_HOUR"
      "\<not> m - (t + freq + real k * freq) > ONE_HOUR"
    by blast
  have step: "UOC_monitoring m freq t ns = UOC_monitoring m freq (t + freq) (ns @ [t])"
    using go by (subst UOC_monitoring.simps) simp
  have shift: "t + freq + real i * freq = t + real (Suc i) * freq" for i
    by (simp add: algebra_simps)
  have "UOC_monitoring m freq t ns = Some (ns @ map (\<lambda>i. t + real i * freq) [0..<Suc k])"
    unfolding step k(1) by (simp add: map_upt_Suc shift del: upt_Suc)
  moreover have "\<forall>i<Suc k. m - (t + real i * freq) > ONE_HOUR"
  proof (intro allI impI)
    fix i assume "i < Suc k"
    show "m - (t + real i * freq) > ONE_HOUR"
    proof (cases i)
      case 0
      with go show ?thesis by simp
    next
      case (Suc j)
      with \<open>i < Suc k\<close> k(2) have "m - (t + freq + real j * freq) > ONE_HOUR" by simp
      then show ?thesis by (simp add: Suc shift)
    qed
  qed
  moreover have "\<not> m - (t + real (Suc k) * freq) > ONE_HOUR"
    using k(3) by (simp add: shift)
  ultimately show ?case by blast
qed

lemma ContingentBond_schedule_grid:
  assumes "0 < freq"
  shows "\<exists>k dt'. ContingentBond_schedule m freq t ns dt
             = Some (ns @ map (\<lambda>i. t + real i * freq) [0..<k], dt')
           \<and> (\<forall>i<k. m - (t + real i * freq) > ONE_DAY)
           \<and> \<not> m - (t + real k * freq) > ONE_DAY"
proof (induction "nat \<lceil>(m - t - ONE_DAY) / freq\<rceil>" arbitrary: t ns dt)
  case 0
  then have "(m - t - ONE_DAY) / freq \<le> 0" by simp
  with assms have stop: "\<not> m - t > ONE_DAY"
    by (simp add: divide_le_0_iff)
  then have "ContingentBond_schedule m freq t ns dt = Some (ns, dt)"
    by (subst ContingentBond_schedule.simps) simp
  with stop show ?case
    by (intro exI [of _ 0]) simp
next
  case (Suc n)
  then have "0 < (m - t - ONE_DAY) / freq" by linarith
  with assms have go: "m - t > ONE_DAY"
    by (simp add: zero_less_divide_iff)
  have "(m - (t + freq) - ONE_DAY) / freq = (m - t - ONE_DAY) / freq - 1"
    using assms by (simp add: field_simps)
  then have "n = nat \<lceil>(m - (t + freq) - ONE_DAY) / freq\<rceil>"
    using Suc(2) by simp
  from Suc(1) [OF this, of "ns @ [t]" "dt @ [t - last ns]"]
  obtain k dt' where k: "ContingentBond_schedule m freq (t + freq) (ns @ [t]) (dt @ [t - last ns])
        = Some ((ns @ [t]) @ map (\<lambda>i. t + freq + real i * freq) [0..<k], dt')"
      "\<forall>i<k. m - (t + freq + real i * freq) > ONE_DAY"
      "\<not> m - (t + freq + real k * freq) > ONE_DAY"
    by blast
  have step: "ContingentBond_schedule m freq t ns dt
              = ContingentBond_schedule m freq (t + freq) (ns @ [t]) (dt @ [t - last ns])"
    using go by (subst ContingentBond_schedule.simps) simp
  have shift: "t + freq + real i * freq = t + real (Suc i) * freq" for i
    by (simp add: algebra_simps)
  have "ContingentBond_schedule m freq t ns dt
        = Some (ns @ map (\<lambda>i. t + real i * freq) [0..<Suc k], dt')"
    unfolding step k(1) by (simp add: map_upt_Suc shift del: upt_Suc)
  moreover have "\<forall>i<Suc k. m - (t + real i * freq) > ONE_DAY"
  proof (intro allI impI)
    fix i assume "i < Suc k"
    show "m - (t + real i * freq) > ONE_DAY"
    proof (cases i)
      case 0
      with go show ?thesis by simp
    next
      case (Suc j)
      with \<open>i < Suc k\<close> k(2) have "m - (t + freq + real j * freq) > ONE_DAY" by simp
      then show ?thesis by (simp add: Suc shift)
    qed
  qed
  moreover have "\<not> m - (t + real (Suc k) * freq) > ONE_DAY"
    using k(3) by (simp add: shift)
  ultimately show ?case by blast
qed

lemma UOC_timeline_grid:
  assumes "0 < freq"
  shows "\<exists>k u. UOC systemTime strike barrier maturity freq smooth = Some u
           \<and> UOC.myTimeline u
               = systemTime # map (\<lambda>i. systemTime + real (Suc i) * freq) [0..<k] @ [maturity]
           \<and> (\<forall>i<k. maturity - (systemTime + real (Suc i) * freq) > ONE_HOUR)
           \<and> \<not> maturity - (systemTime + real (Suc k) * freq) > ONE_HOUR"
proof -
  have shift: "systemTime + freq + real i * freq = systemTime + real (Suc i) * freq" for i
    by (simp add: algebra_simps)
  from UOC_monitoring_grid [OF assms, of maturity "systemTime + freq" "[systemTime]"]
  obtain k where k:
    "UOC_monitoring maturity freq (systemTime + freq) [systemTime]
       = Some (systemTime # map (\<lambda>i. systemTime + real (Suc i) * freq) [0..<k])"
    "\<forall>i<k. maturity - (systemTime + real (Suc i) * freq) > ONE_HOUR"
    "\<not> maturity - (systemTime + real (Suc k) * freq) > ONE_HOUR"
    unfolding shift by auto
  show ?thesis
    using k(2,3) by (intro exI [of _ k]) (simp add: UOC_def k(1) Let_def)
qed

lemma ContingentBond_timeline_grid:
  assumes "0 < freq"
  shows "\<exists>k b. ContingentBond systemTime maturity cpn freq smooth = Some b
           \<and> ContingentBond.myTimeline b
               = systemTime # map (\<lambda>i. systemTime + real (Suc i) * freq) [0..<k] @ [maturity]
           \<and> (\<forall>i<k. maturity - (systemTime + real (Suc i) * freq) > ONE_DAY)
           \<and> \<not> maturity - (systemTime + real (Suc k) * freq) > ONE_DAY"
proof -
  have shift: "systemTime + freq + real i * freq = systemTime + real (Suc i) * freq" for i
    by (simp add: algebra_simps)
  from ContingentBond_schedule_grid [OF assms, of maturity "systemTime + freq" "[systemTime]" "[]"]
  obtain k dt where k:
    "ContingentBond_schedule maturity freq (systemTime + freq) [systemTime] []
       = Some (systemTime # map (\<lambda>i. systemTime + real (Suc i) * freq) [0..<k], dt)"
    "\<forall>i<k. maturity - (systemTime + real (Suc i) * freq) > ONE_DAY"
    "\<not> maturity - (systemTime + real (Suc k) * freq) > ONE_DAY"
    unfolding shift by auto
  show ?thesis
    using k(2,3) by (intro exI [of _ k]) (simp add: ContingentBond_def k(1) Let_def)
qed

text \<open>
  C3: with maturity after the system date and a positive frequency, the constructors of
  \<open>UOC\<close> and \<open>ContingentBond\<close> return, and the timeline is the system date, then the
  grid nodes \<open>systemTime + (i + 1) * freq\<close> for \<open>i < k\<close>, then maturity, where \<open>k\<close> counts
  exactly the grid nodes that are more than the tolerance (one hour, one day) before
  maturity: each of the \<open>k\<close> nodes is, and the next grid node is not. The first node is
  the system date and the last is maturity itself.
\<close>

theorem timeline_construction:
  assumes "systemTime < maturity" and "0 < freq"
  shows "(\<exists>k u. UOC systemTime strike barrier maturity freq smooth = Some u
           \<and> UOC.myTimeline u
               = systemTime # map (\<lambda>i. systemTime + real (Suc i) * freq) [0..<k] @ [maturity]
           \<and> (\<forall>i<k. maturity - (systemTime + real (Suc i) * freq) > ONE_HOUR)
           \<and> \<not> maturity - (systemTime + real (Suc k) * freq) > ONE_HOUR
           \<and> hd (UOC.myTimeline u) = systemTime \<and> last (UOC.myTimeline u) = maturity)
       \<and> (\<exists>k b. ContingentBond systemTime maturity cpn freq smooth' = Some b
           \<and> ContingentBond.myTimeline b
               = systemTime # map (\<lambda>i. systemTime + real (Suc i) * freq) [0..<k] @ [maturity]
           \<and> (\<forall>i<k. maturity - (systemTime + real (Suc i) * freq) > ONE_DAY)
           \<and> \<not> maturity - (systemTime + real (Suc k) * freq) > ONE_DAY
           \<and> hd (ContingentBond.myTimeline b) = systemTime
           \<and> last (ContingentBond.myTimeline b) = maturity)"
proof
  from UOC_timeline_grid [OF assms(2), of systemTime strike barrier maturity smooth]
  obtain k u where "UOC systemTime strike barrier maturity freq smooth = Some u"
    and "UOC.myTimeline u
         = systemTime # map (\<lambda>i. systemTime + real (Suc i) * freq) [0..<k] @ [maturity]"
    and "\<forall>i<k. maturity - (systemTime + real (Suc i) * freq) > ONE_HOUR"
    and "\<not> maturity - (systemTime + real (Suc k) * freq) > ONE_HOUR"
    by blast
  then show "\<exists>k u. UOC systemTime strike barrier maturity freq smooth = Some u
           \<and> UOC.myTimeline u
               = systemTime # map (\<lambda>i. systemTime + real (Suc i) * freq) [0..<k] @ [maturity]
           \<and> (\<forall>i<k. maturity - (systemTime + real (Suc i) * freq) > ONE_HOUR)
           \<and> \<not> maturity - (systemTime + real (Suc k) * freq) > ONE_HOUR
           \<and> hd (UOC.myTimeline u) = systemTime \<and> last (UOC.myTimeline u) = maturity"
    by (intro exI [of _ k] exI [of _ u]) simp
next
  from ContingentBond_timeline_grid [OF assms(2), of systemTime maturity cpn smooth']
  obtain k b where "ContingentBond systemTime maturity cpn freq smooth' = Some b"
    and "ContingentBond.myTimeline b
         = systemTime # map (\<lambda>i. systemTime + real (Suc i) * freq) [0..<k] @ [maturity]"
    and "\<forall>i<k. maturity - (systemTime + real (Suc i) * freq) > ONE_DAY"
    and "\<not> maturity - (systemTime + real (Suc k) * freq) > ONE_DAY"
    by blast
  then show "\<exists>k b. ContingentBond systemTime maturity cpn freq smooth' = Some b
           \<and> ContingentBond.myTimeline b
               = systemTime # map (\<lambda>i. systemTime + real (Suc i) * freq) [0..<k] @ [maturity]
           \<and> (\<forall>i<k. maturity - (systemTime + real (Suc i) * freq) > ONE_DAY)
           \<and> \<not> maturity - (systemTime + real (Suc k) * freq) > ONE_DAY
           \<and> hd (ContingentBond.myTimeline b) = systemTime
           \<and> last (ContingentBond.myTimeline b) = maturity"
    by (intro exI [of _ k] exI [of _ b]) simp
qed

theorem timeline_construction_witness:
  "(\<exists>u. UOC 0 90 100 1 (1 / 2) (1 / 10) = Some u
        \<and> UOC.myTimeline u = [0, 1 / 2, 1]
        \<and> hd (UOC.myTimeline u) = 0 \<and> last (UOC.myTimeline u) = 1)
   \<and> (\<exists>b. ContingentBond 0 1 (3 / 100) (1 / 2) (1 / 10) = Some b
        \<and> ContingentBond.myTimeline b = [0, 1 / 2, 1]
        \<and> hd (ContingentBond.myTimeline b) = 0 \<and> last (ContingentBond.myTimeline b) = 1)"
proof -
  have dates: "(0::real) < 1" "(0::real) < 1 / 2"
    by simp_all
  have "map_option UOC.myTimeline (UOC 0 90 100 1 (1 / 2) (1 / 10)) = Some [0, 1 / 2, 1]"
    by (simp add: UOC_def UOC_monitoring.simps ONE_HOUR_def Let_def)
  moreover have "map_option ContingentBond.myTimeline
        (ContingentBond 0 1 (3 / 100) (1 / 2) (1 / 10)) = Some [0, 1 / 2, 1]"
    by (simp add: ContingentBond_def ContingentBond_schedule.simps ONE_DAY_def Let_def)
  ultimately show ?thesis
    using timeline_construction [OF dates, of 90 100 "1 / 10" "3 / 100" "1 / 10"]
    by auto
qed

subsection \<open>Construction without validation\<close>

text \<open>
  With a frequency of zero or less and a first step more than the tolerance before
  maturity, the monitoring loop never exits.
\<close>

lemma UOC_monitoring_diverges:
  assumes "UOC_monitoring m freq t ns = Some r"
  shows "\<not> (freq \<le> 0 \<and> m - t > ONE_HOUR)"
proof (rule UOC_monitoring.raw_induct
    [where P = "\<lambda>m freq t ns r. \<not> (freq \<le> 0 \<and> m - t > ONE_HOUR)", OF _ assms])
  fix loop :: "Time \<Rightarrow> Time \<Rightarrow> Time \<Rightarrow> Time list \<Rightarrow> Time list option"
    and m freq t ns r
  assume IH: "\<And>m freq t ns r. loop m freq t ns = Some r \<Longrightarrow> \<not> (freq \<le> 0 \<and> m - t > ONE_HOUR)"
    and eq: "(if ONE_HOUR < m - t then loop m freq (t + freq) (ns @ [t]) else Some ns) = Some r"
  show "\<not> (freq \<le> 0 \<and> m - t > ONE_HOUR)"
  proof
    assume bad: "freq \<le> 0 \<and> m - t > ONE_HOUR"
    with eq have "loop m freq (t + freq) (ns @ [t]) = Some r" by simp
    from IH [OF this] bad show False by simp
  qed
qed

text \<open>
  C7 (as amended): the constructors validate nothing. \<open>Europeans\<close> of the empty map is a
  product with an empty timeline, dataline and label list. Whenever the first step
  \<open>systemTime + freq\<close> is within the tolerance of maturity or beyond it (so for every
  maturity at or before the system date with a frequency of zero or more), \<open>UOC\<close> and
  \<open>ContingentBond\<close> return a product with the timeline \<open>[systemTime, maturity]\<close>,
  whatever the order of the two dates.
\<close>

theorem construction_unchecked:
  "Europeans.myMaturities (Europeans fmempty) = []
   \<and> Europeans.myDataline (Europeans fmempty) = []
   \<and> Europeans.myLabels (Europeans fmempty) = []
   \<and> (maturity - (systemTime + freq) \<le> ONE_HOUR \<longrightarrow>
        (\<exists>u. UOC systemTime strike barrier maturity freq smooth = Some u
              \<and> UOC.myTimeline u = [systemTime, maturity]))
   \<and> (maturity - (systemTime + freq) \<le> ONE_DAY \<longrightarrow>
        (\<exists>b. ContingentBond systemTime maturity cpn freq smooth' = Some b
              \<and> ContingentBond.myTimeline b = [systemTime, maturity]
              \<and> ContingentBond.myDt b = [maturity - systemTime]))"
  by (simp add: Europeans_def sorted_list_of_fmap_def sorted_list_of_fset.rep_eq
      UOC_def UOC_monitoring.simps ContingentBond_def ContingentBond_schedule.simps Let_def)

theorem construction_unchecked_witness:
  "(\<exists>u. UOC 0 90 100 (- 1) 1 (1 / 10) = Some u \<and> UOC.myTimeline u = [0, - 1])
   \<and> (\<exists>b. ContingentBond 0 (- 1) (3 / 100) 0 (1 / 10) = Some b
            \<and> ContingentBond.myTimeline b = [0, - 1] \<and> ContingentBond.myDt b = [- 1])"
proof -
  have "(- 1 :: real) - (0 + 1) \<le> ONE_HOUR" and "(- 1 :: real) - (0 + 0) \<le> ONE_DAY"
    by (simp_all add: ONE_HOUR_def ONE_DAY_def)
  then show ?thesis
    using construction_unchecked [of "- 1" 0 1 90 100 "1 / 10" "3 / 100" "1 / 10"]
      construction_unchecked [of "- 1" 0 0 90 100 "1 / 10" "3 / 100" "1 / 10"]
    by simp
qed

text \<open>
  The empty map gives a product with an empty timeline; a maturity one year before the
  system date gives a product with the timeline \<open>[0, -1]\<close>; a frequency of 0 with
  maturity on the system date gives the timeline \<open>[0, 0]\<close>.
\<close>

theorem construction_fails_counterexample:
  "Europeans.myMaturities (Europeans fmempty) = []
   \<and> map_option UOC.myTimeline (UOC 0 90 100 (- 1) 1 (1 / 10)) = Some [0, - 1]
   \<and> map_option UOC.myTimeline (UOC 0 90 100 0 0 (1 / 10)) = Some [0, 0]"
  by (simp add: Europeans_def sorted_list_of_fmap_def sorted_list_of_fset.rep_eq
      UOC_def UOC_monitoring.simps ONE_HOUR_def Let_def)

subsection \<open>Coverages of ContingentBond\<close>

lemma coverages_snoc:
  assumes "timeline \<noteq> []"
  shows "coverages (timeline @ [t]) = coverages timeline @ [t - last timeline]"
proof -
  obtain n where n: "length timeline = Suc n"
    using assms by (cases timeline) auto
  have "map (\<lambda>i. (timeline @ [t]) ! (i + 1) - (timeline @ [t]) ! i) [0..<n]
        = map (\<lambda>i. timeline ! (i + 1) - timeline ! i) [0..<n]"
    using n by (intro map_cong) (auto simp add: nth_append)
  moreover have "(timeline @ [t]) ! (n + 1) - (timeline @ [t]) ! n = t - last timeline"
    using n assms by (simp add: nth_append last_conv_nth)
  ultimately show ?thesis
    using n by (simp add: coverages_def)
qed

lemma ContingentBond_schedule_coverages:
  assumes "ContingentBond_schedule m freq t timeline dt = Some r"
  shows "timeline \<noteq> [] \<and> dt = coverages timeline \<longrightarrow>
         fst r \<noteq> [] \<and> snd r = coverages (fst r)"
proof (rule ContingentBond_schedule.raw_induct
    [where P = "\<lambda>m freq t timeline dt r. timeline \<noteq> [] \<and> dt = coverages timeline \<longrightarrow>
                  fst r \<noteq> [] \<and> snd r = coverages (fst r)", OF _ assms])
  fix sched :: "Time \<Rightarrow> Time \<Rightarrow> Time \<Rightarrow> Time list \<Rightarrow> real list \<Rightarrow> (Time list \<times> real list) option"
    and m freq t timeline dt r
  assume IH: "\<And>m freq t timeline dt r. sched m freq t timeline dt = Some r \<Longrightarrow>
      timeline \<noteq> [] \<and> dt = coverages timeline \<longrightarrow> fst r \<noteq> [] \<and> snd r = coverages (fst r)"
    and eq: "(if ONE_DAY < m - t
              then sched m freq (t + freq) (timeline @ [t]) (dt @ [t - last timeline])
              else Some (timeline, dt)) = Some r"
  show "timeline \<noteq> [] \<and> dt = coverages timeline \<longrightarrow> fst r \<noteq> [] \<and> snd r = coverages (fst r)"
  proof (cases "ONE_DAY < m - t")
    case True
    with eq have "sched m freq (t + freq) (timeline @ [t]) (dt @ [t - last timeline]) = Some r"
      by simp
    from IH [OF this] show ?thesis
      by (simp add: coverages_snoc)
  next
    case False
    with eq have "r = (timeline, dt)" by simp
    then show ?thesis by simp
  qed
qed

lemma ContingentBond_period_eval:
  assumes "i + 1 < length path" and "forwards (path ! i) \<noteq> []"
    and "forwards (path ! (i + 1)) \<noteq> []" and "libors (path ! i) \<noteq> []"
    and "i < length (ContingentBond.myDt p)" and "numeraire (path ! (i + 1)) \<noteq> 0"
    and "ContingentBond_digital smooth (spot (path ! i)) (spot (path ! (i + 1))) = Inr d"
  shows "ContingentBond_period p smooth path i =
           Inr (d * (libors (path ! i) ! 0 + ContingentBond.myCpn p) * (ContingentBond.myDt p ! i)
                / numeraire (path ! (i + 1)))"
proof -
  have "i < length path" using assms(1) by simp
  then show ?thesis
    using assms by (simp add: ContingentBond_period_def spot_def)
qed

lemma ContingentBond_myDt:
  assumes "ContingentBond systemTime maturity cpn payFreq smooth = Some b"
  shows "ContingentBond.myDt b = coverages (ContingentBond.myTimeline b)"
proof -
  obtain scheduled dt where
    run: "ContingentBond_schedule maturity payFreq (systemTime + payFreq) [systemTime] []
          = Some (scheduled, dt)"
    using assms by (auto simp add: ContingentBond_def split: option.splits)
  have "[systemTime] \<noteq> [] \<and> [] = coverages [systemTime]"
    by (simp add: coverages_def)
  with ContingentBond_schedule_coverages [OF run]
  have inv: "scheduled \<noteq> []" "dt = coverages scheduled"
    by simp_all
  have "ContingentBond.myTimeline b = scheduled @ [maturity]"
    and "ContingentBond.myDt b = dt @ [maturity - last scheduled]"
    using assms run by (auto simp add: ContingentBond_def Let_def)
  then show ?thesis
    using inv by (simp add: coverages_snoc)
qed

lemma ContingentBond_timeline_nonempty:
  "ContingentBond systemTime maturity cpn payFreq smooth = Some b \<Longrightarrow>
   ContingentBond.myTimeline b \<noteq> []"
  by (auto simp add: ContingentBond_def Let_def split: option.splits)

subsection \<open>ContingentBond payoff\<close>

lemma ContingentBond_digital_eval:
  "smooth \<noteq> 0 \<or> s1 \<noteq> s0 \<Longrightarrow>
   ContingentBond_digital smooth s0 s1 = Inr (digital_spec smooth s0 s1)"
  by (auto simp add: ContingentBond_digital_def digital_spec_def Let_def)

lemma ContingentBond_digital_zero:
  "ContingentBond_digital 0 s0 s1 = Inl DivByZero \<longleftrightarrow> s1 = s0"
  by (auto simp add: ContingentBond_digital_def Let_def)

lemma ContingentBond_loop_eval:
  "\<forall>i \<in> set is. ContingentBond_period p smooth path i = Inr (c i) \<Longrightarrow> payoffs \<noteq> [] \<Longrightarrow>
   ContingentBond_loop p smooth path is payoffs
     = Inr (payoffs[0 := payoffs ! 0 + sum_list (map c is)])"
proof (induction "is" arbitrary: payoffs)
  case Nil
  then show ?case by simp
next
  case (Cons i rest)
  have "ContingentBond_loop p smooth path (i # rest) payoffs
        = ContingentBond_loop p smooth path rest (payoffs[0 := payoffs ! 0 + c i])"
    using Cons.prems by simp
  also have "\<dots> = Inr ((payoffs[0 := payoffs ! 0 + c i])
                        [0 := (payoffs[0 := payoffs ! 0 + c i]) ! 0 + sum_list (map c rest)])"
    using Cons.prems by (intro Cons.IH) simp_all
  finally show ?case
    using Cons.prems(2) by (simp add: add.assoc)
qed

lemma ContingentBond_loop_fault:
  "\<forall>i \<in> set is. (\<exists>c. ContingentBond_period p smooth path i = Inr c)
                    \<or> ContingentBond_period p smooth path i = Inl DivByZero \<Longrightarrow>
   \<exists>i \<in> set is. ContingentBond_period p smooth path i = Inl DivByZero \<Longrightarrow>
   payoffs \<noteq> [] \<Longrightarrow>
   ContingentBond_loop p smooth path is payoffs = Inl DivByZero"
proof (induction "is" arbitrary: payoffs)
  case Nil
  then show ?case by simp
next
  case (Cons i rest)
  show ?case
  proof (cases "ContingentBond_period p smooth path i")
    case (Inl e)
    with Cons.prems(1) have "e = DivByZero" by auto
    with Inl show ?thesis by simp
  next
    case (Inr c)
    with Cons.prems(2) have "\<exists>j \<in> set rest. ContingentBond_period p smooth path j = Inl DivByZero"
      by auto
    with Cons.prems(1,3) have "ContingentBond_loop p smooth path rest (payoffs[0 := payoffs ! 0 + c])
                             = Inl DivByZero"
      by (intro Cons.IH) simp_all
    with Inr Cons.prems(3) show ?thesis by simp
  qed
qed

lemma ContingentBond_period_cases:
  assumes "i + 1 < length path" and "forwards (path ! i) \<noteq> []"
    and "forwards (path ! (i + 1)) \<noteq> []" and "libors (path ! i) \<noteq> []"
    and "i < length (ContingentBond.myDt p)"
  shows "(\<exists>c. ContingentBond_period p smooth path i = Inr c)
          \<or> ContingentBond_period p smooth path i = Inl DivByZero"
    and "smooth = 0 \<Longrightarrow> spot (path ! (i + 1)) = spot (path ! i) \<Longrightarrow>
         ContingentBond_period p smooth path i = Inl DivByZero"
proof -
  have i: "i < length path" using assms(1) by simp
  have eq: "ContingentBond_period p smooth path i =
      bindE (ContingentBond_digital smooth (spot (path ! i)) (spot (path ! (i + 1)))) (\<lambda>digital.
        divide_chk (digital * (libors (path ! i) ! 0 + ContingentBond.myCpn p)
                    * (ContingentBond.myDt p ! i)) (numeraire (path ! (i + 1))))"
    using assms i by (simp add: ContingentBond_period_def spot_def)
  show "(\<exists>c. ContingentBond_period p smooth path i = Inr c)
          \<or> ContingentBond_period p smooth path i = Inl DivByZero"
    unfolding eq by (auto simp add: ContingentBond_digital_def divide_chk_def Let_def)
  show "ContingentBond_period p smooth path i = Inl DivByZero"
    if "smooth = 0" and "spot (path ! (i + 1)) = spot (path ! i)"
    unfolding eq using that by (simp add: ContingentBond_digital_def)
qed

lemma ContingentBond_payoffs_eval:
  assumes "path \<noteq> []" and "\<forall>s \<in> set path. forwards s \<noteq> []"
    and "\<forall>i < length path - 1. libors (path ! i) \<noteq> [] \<and> numeraire (path ! (i + 1)) \<noteq> 0"
    and "numeraire (last path) \<noteq> 0"
    and "length path - 1 \<le> length (ContingentBond.myDt p)"
    and "payoffs \<noteq> []"
    and "spot (hd path) * ContingentBond.mySmooth p \<noteq> 0
         \<or> (\<forall>i < length path - 1. spot (path ! (i + 1)) \<noteq> spot (path ! i))"
  shows "ContingentBond_payoffs p path payoffs =
           Inr (payoffs[0 :=
             (\<Sum>i = 0..<length path - 1.
                 digital_spec (spot (hd path) * ContingentBond.mySmooth p)
                   (spot (path ! i)) (spot (path ! (i + 1)))
                 * (libors (path ! i) ! 0 + ContingentBond.myCpn p)
                 * (ContingentBond.myDt p ! i) / numeraire (path ! (i + 1)))
             + 1 / numeraire (last path)])"
proof -
  define smooth where "smooth = spot (hd path) * ContingentBond.mySmooth p"
  define c where "c = (\<lambda>i. digital_spec smooth (spot (path ! i)) (spot (path ! (i + 1)))
                 * (libors (path ! i) ! 0 + ContingentBond.myCpn p)
                 * (ContingentBond.myDt p ! i) / numeraire (path ! (i + 1)))"
  obtain first rest where path: "path = first # rest"
    using assms(1) by (cases path) auto
  have f0: "elem (forwards first) 0 = Inr (spot first)"
    using assms(2) path by (simp add: spot_def)
  have period: "ContingentBond_period p smooth path i = Inr (c i)" if "i < length path - 1" for i
  proof -
    have "smooth \<noteq> 0 \<or> spot (path ! (i + 1)) \<noteq> spot (path ! i)"
      using assms(7) that by (auto simp add: smooth_def)
    then have "ContingentBond_digital smooth (spot (path ! i)) (spot (path ! (i + 1)))
               = Inr (digital_spec smooth (spot (path ! i)) (spot (path ! (i + 1))))"
      by (rule ContingentBond_digital_eval)
    moreover have "i + 1 < length path" "i < length path" "i < length (ContingentBond.myDt p)"
      using that assms(5) by simp_all
    moreover have "forwards (path ! i) \<noteq> []" "forwards (path ! (i + 1)) \<noteq> []"
      using assms(2) \<open>i + 1 < length path\<close> \<open>i < length path\<close> nth_mem by blast+
    moreover have "libors (path ! i) \<noteq> []" "numeraire (path ! (i + 1)) \<noteq> 0"
      using assms(3) that by simp_all
    ultimately show ?thesis
      unfolding c_def by (intro ContingentBond_period_eval)
  qed
  have "ContingentBond_loop p smooth path [0..<length path - 1] (payoffs[0 := 0])
        = Inr ((payoffs[0 := 0])[0 := (payoffs[0 := 0]) ! 0
                                      + sum_list (map c [0..<length path - 1])])"
    using assms(6) by (intro ContingentBond_loop_eval) (simp_all add: period)
  also have "\<dots> = Inr (payoffs[0 := (\<Sum>i = 0..<length path - 1. c i)])"
    using assms(6) by (simp add: interv_sum_list_conv_sum_set_nat)
  finally have loop: "ContingentBond_loop p smooth path [0..<length path - 1] (payoffs[0 := 0])
        = Inr (payoffs[0 := (\<Sum>i = 0..<length path - 1. c i)])" .
  have "ContingentBond_payoffs p path payoffs
        = Inr (payoffs[0 := (\<Sum>i = 0..<length path - 1. c i) + 1 / numeraire (last path)])"
    unfolding ContingentBond_payoffs_def
    using assms(1,4,6) loop
    by (simp add: path f0 Let_def smooth_def)
  then show ?thesis
    by (simp add: c_def smooth_def)
qed

lemma ContingentBond_payoffs_fault:
  assumes "path \<noteq> []" and "\<forall>s \<in> set path. forwards s \<noteq> []"
    and "\<forall>i < length path - 1. libors (path ! i) \<noteq> []"
    and "length path - 1 \<le> length (ContingentBond.myDt p)"
    and "payoffs \<noteq> []"
    and "spot (hd path) * ContingentBond.mySmooth p = 0"
    and "j < length path - 1" and "spot (path ! (j + 1)) = spot (path ! j)"
  shows "ContingentBond_payoffs p path payoffs = Inl DivByZero"
proof -
  obtain first rest where path: "path = first # rest"
    using assms(1) by (cases path) auto
  have f0: "elem (forwards first) 0 = Inr (spot first)"
    using assms(2) path by (simp add: spot_def)
  have wf: "i + 1 < length path \<and> forwards (path ! i) \<noteq> [] \<and> forwards (path ! (i + 1)) \<noteq> []
            \<and> libors (path ! i) \<noteq> [] \<and> i < length (ContingentBond.myDt p)"
    if "i < length path - 1" for i
  proof -
    have "i + 1 < length path" "i < length path" "i < length (ContingentBond.myDt p)"
      using that assms(4) by simp_all
    moreover have "forwards (path ! i) \<noteq> []" "forwards (path ! (i + 1)) \<noteq> []"
      using assms(2) \<open>i + 1 < length path\<close> \<open>i < length path\<close> nth_mem by blast+
    moreover have "libors (path ! i) \<noteq> []"
      using assms(3) that by simp
    ultimately show ?thesis by simp
  qed
  have "(\<exists>c. ContingentBond_period p 0 path i = Inr c)
          \<or> ContingentBond_period p 0 path i = Inl DivByZero" if "i < length path - 1" for i
    using wf [OF that] by (intro ContingentBond_period_cases(1)) simp_all
  then have "\<forall>i \<in> set [0..<length path - 1].
          (\<exists>c. ContingentBond_period p 0 path i = Inr c)
          \<or> ContingentBond_period p 0 path i = Inl DivByZero"
    by simp
  moreover have "ContingentBond_period p 0 path j = Inl DivByZero"
    using wf [OF assms(7)] assms(8) by (intro ContingentBond_period_cases(2)) simp_all
  then have "\<exists>i \<in> set [0..<length path - 1]. ContingentBond_period p 0 path i = Inl DivByZero"
    using assms(7) by auto
  ultimately have "ContingentBond_loop p 0 path [0..<length path - 1] (payoffs[0 := 0])
                   = Inl DivByZero"
    using assms(5) by (intro ContingentBond_loop_fault) simp_all
  then have loop: "ContingentBond_loop p 0 (first # rest) [0..<length rest] (payoffs[0 := 0])
                   = Inl DivByZero"
    by (simp add: path)
  have smooth: "spot first * ContingentBond.mySmooth p = 0"
    using assms(6) by (simp add: path)
  have rest: "rest \<noteq> []"
    using assms(7) by (auto simp add: path)
  show ?thesis
    unfolding ContingentBond_payoffs_def path
    using assms(5) rest
    by (simp add: f0 Let_def smooth loop del: mult_eq_0_iff)
qed

text \<open>
  C2 (as amended): on a non-empty path with a forward on every node, a libor on every
  node but the last, nonzero numeraires, as many coverages as periods and no period that
  divides by zero, \<open>ContingentBond_payoffs\<close> changes slot 0 of the buffer only, to the sum
  over the periods of \<open>digital * (libor + coupon) * coverage / numeraire\<close> (numeraire of
  the period's end node) plus \<open>1 / numeraire\<close> of the last node, with the digital of the
  specification (\<open>digital_spec\<close>). When the half-width is positive, a period return of
  zero gives a digital of \<open>1/2\<close>, a return of \<open>+ w\<close> gives 1 and a return of \<open>- w\<close>
  gives 0.
\<close>

theorem ContingentBond_payoffs_value:
  assumes "path \<noteq> []" and "\<forall>s \<in> set path. forwards s \<noteq> []"
    and "\<forall>i < length path - 1. libors (path ! i) \<noteq> [] \<and> numeraire (path ! (i + 1)) \<noteq> 0"
    and "numeraire (last path) \<noteq> 0"
    and "length path - 1 \<le> length (ContingentBond.myDt p)"
    and "payoffs \<noteq> []"
    and "spot (hd path) * ContingentBond.mySmooth p \<noteq> 0
         \<or> (\<forall>i < length path - 1. spot (path ! (i + 1)) \<noteq> spot (path ! i))"
  shows "ContingentBond_payoffs p path payoffs =
           Inr (payoffs[0 :=
             (\<Sum>i = 0..<length path - 1.
                 digital_spec (spot (hd path) * ContingentBond.mySmooth p)
                   (spot (path ! i)) (spot (path ! (i + 1)))
                 * (libors (path ! i) ! 0 + ContingentBond.myCpn p)
                 * (ContingentBond.myDt p ! i) / numeraire (path ! (i + 1)))
             + 1 / numeraire (last path)])
         \<and> (0 < w \<longrightarrow>
               ContingentBond_digital w s0 s0 = Inr (1 / 2)
               \<and> ContingentBond_digital w s0 (s0 + w) = Inr 1
               \<and> ContingentBond_digital w s0 (s0 - w) = Inr 0)"
proof
  show "ContingentBond_payoffs p path payoffs =
           Inr (payoffs[0 :=
             (\<Sum>i = 0..<length path - 1.
                 digital_spec (spot (hd path) * ContingentBond.mySmooth p)
                   (spot (path ! i)) (spot (path ! (i + 1)))
                 * (libors (path ! i) ! 0 + ContingentBond.myCpn p)
                 * (ContingentBond.myDt p ! i) / numeraire (path ! (i + 1)))
             + 1 / numeraire (last path)])"
    using assms by (rule ContingentBond_payoffs_eval)
  show "0 < w \<longrightarrow>
          ContingentBond_digital w s0 s0 = Inr (1 / 2)
          \<and> ContingentBond_digital w s0 (s0 + w) = Inr 1
          \<and> ContingentBond_digital w s0 (s0 - w) = Inr 0"
    by (simp add: ContingentBond_digital_def Let_def)
qed

theorem ContingentBond_payoffs_value_witness:
  "ContingentBond_payoffs bond_semi
     [coupon_node 100 (2 / 100) 1, coupon_node 100 (2 / 100) 1, coupon_node 120 0 1] [0]
   = Inr [83 / 80]
   \<and> ContingentBond_digital 10 100 100 = Inr (1 / 2)
   \<and> ContingentBond_digital 10 100 110 = Inr 1
   \<and> ContingentBond_digital 10 100 90 = Inr 0"
proof -
  define path where
    "path = [coupon_node 100 (2 / 100) 1, coupon_node 100 (2 / 100) 1, coupon_node 120 0 1]"
  have len: "length path - 1 = Suc (Suc 0)"
    by (simp add: path_def)
  have nodes: "path ! 0 = coupon_node 100 (2 / 100) 1" "path ! Suc 0 = coupon_node 100 (2 / 100) 1"
    "path ! Suc (Suc 0) = coupon_node 120 0 1" "hd path = coupon_node 100 (2 / 100) 1"
    "last path = coupon_node 120 0 1"
    by (simp_all add: path_def)
  have h1: "path \<noteq> []"
    by (simp add: path_def)
  have h2: "\<forall>s \<in> set path. forwards s \<noteq> []"
    by (simp add: path_def coupon_node_def)
  have h3: "\<forall>i < length path - 1. libors (path ! i) \<noteq> [] \<and> numeraire (path ! (i + 1)) \<noteq> 0"
    unfolding len by (simp add: All_less_Suc nodes coupon_node_def)
  have h4: "numeraire (last path) \<noteq> 0"
    by (simp add: nodes coupon_node_def)
  have h5: "length path - 1 \<le> length (ContingentBond.myDt bond_semi)"
    unfolding len by (simp add: bond_semi_def)
  have h6: "[0::real] \<noteq> []"
    by simp
  have h7: "spot (hd path) * ContingentBond.mySmooth bond_semi \<noteq> 0
            \<or> (\<forall>i < length path - 1. spot (path ! (i + 1)) \<noteq> spot (path ! i))"
    by (simp add: nodes coupon_node_def spot_def bond_semi_def)
  have w: "(0::real) < 10"
    by simp
  from ContingentBond_payoffs_value [OF h1 h2 h3 h4 h5 h6 h7, of 10 100]
  have "ContingentBond_payoffs bond_semi path [0] = Inr [83 / 80]
        \<and> ContingentBond_digital 10 100 100 = Inr (1 / 2)
        \<and> ContingentBond_digital 10 100 110 = Inr 1
        \<and> ContingentBond_digital 10 100 90 = Inr 0"
    unfolding len
    by (simp add: nodes coupon_node_def spot_def bond_semi_def digital_spec_def)
  then show ?thesis
    by (simp add: path_def)
qed

text \<open>
  With a smoothing fraction of 0 the half-width is 0; on a period with a return of zero
  neither strict comparison holds, the interpolation divides by zero and the payoff is
  no number, where the claim has a digital of \<open>1/2\<close>. With a negative half-width the
  first comparison holds for a return of zero and the digital is 1.
\<close>

theorem ContingentBond_digital_half_counterexample:
  "ContingentBond 0 1 (3 / 100) (1 / 2) 0 = Some bond_hard
   \<and> ContingentBond_digital (100 * 0) 100 100 = Inl DivByZero
   \<and> ContingentBond_payoffs bond_hard
        [coupon_node 100 (2 / 100) 1, coupon_node 100 (2 / 100) 1, coupon_node 100 0 1] [0]
      = Inl DivByZero
   \<and> ContingentBond_digital (100 * (- 1 / 10)) 100 100 = Inr 1"
  by (simp add: ContingentBond_def ContingentBond_schedule.simps ONE_DAY_def
      ContingentBond_dataline_def bond_hard_def bond_semi_def upt_rec
      ContingentBond_digital_def ContingentBond_payoffs_def ContingentBond_period_def
      coupon_node_def)

text \<open>
  C9: the interpolation of the digital is reached when neither \<open>s1 - s0 > smooth\<close> nor
  \<open>s1 - s0 < - smooth\<close> holds. For a positive half-width the digital is a number (the
  division is by \<open>2 * smooth \<noteq> 0\<close>) and so is the payoff of a well-formed path. For a
  half-width of 0 the digital divides by zero exactly when \<open>s1 = s0\<close>, and then
  \<open>ContingentBond_payoffs\<close> itself ends in the division by zero: on any well-formed path
  with \<open>smoothFraction * first forward = 0\<close> and a period whose two forwards are equal.
\<close>

theorem ContingentBond_division_guard:
  "(0 < smooth \<longrightarrow> ContingentBond_digital smooth s0 s1 = Inr (digital_spec smooth s0 s1))
   \<and> ContingentBond_digital 0 s0 s1
       = (if s1 = s0 then Inl DivByZero else if s1 > s0 then Inr 1 else Inr 0)
   \<and> (path \<noteq> [] \<and> (\<forall>s \<in> set path. forwards s \<noteq> [])
        \<and> (\<forall>i < length path - 1. libors (path ! i) \<noteq> [])
        \<and> length path - 1 \<le> length (ContingentBond.myDt p) \<and> payoffs \<noteq> []
        \<and> spot (hd path) * ContingentBond.mySmooth p = 0
        \<and> j < length path - 1 \<and> spot (path ! (j + 1)) = spot (path ! j) \<longrightarrow>
        ContingentBond_payoffs p path payoffs = Inl DivByZero)
   \<and> (path \<noteq> [] \<and> (\<forall>s \<in> set path. forwards s \<noteq> [])
        \<and> (\<forall>i < length path - 1. libors (path ! i) \<noteq> [] \<and> numeraire (path ! (i + 1)) \<noteq> 0)
        \<and> numeraire (last path) \<noteq> 0
        \<and> length path - 1 \<le> length (ContingentBond.myDt p) \<and> payoffs \<noteq> []
        \<and> 0 < spot (hd path) * ContingentBond.mySmooth p \<longrightarrow>
        (\<exists>r. ContingentBond_payoffs p path payoffs = Inr r))"
proof (intro conjI impI)
  assume "0 < smooth"
  then show "ContingentBond_digital smooth s0 s1 = Inr (digital_spec smooth s0 s1)"
    by (intro ContingentBond_digital_eval) simp
next
  show "ContingentBond_digital 0 s0 s1
        = (if s1 = s0 then Inl DivByZero else if s1 > s0 then Inr 1 else Inr 0)"
    by (simp add: ContingentBond_digital_def)
next
  assume "path \<noteq> [] \<and> (\<forall>s \<in> set path. forwards s \<noteq> [])
        \<and> (\<forall>i < length path - 1. libors (path ! i) \<noteq> [])
        \<and> length path - 1 \<le> length (ContingentBond.myDt p) \<and> payoffs \<noteq> []
        \<and> spot (hd path) * ContingentBond.mySmooth p = 0
        \<and> j < length path - 1 \<and> spot (path ! (j + 1)) = spot (path ! j)"
  then show "ContingentBond_payoffs p path payoffs = Inl DivByZero"
    by (intro ContingentBond_payoffs_fault [where j = j]) blast+
next
  assume wf: "path \<noteq> [] \<and> (\<forall>s \<in> set path. forwards s \<noteq> [])
        \<and> (\<forall>i < length path - 1. libors (path ! i) \<noteq> [] \<and> numeraire (path ! (i + 1)) \<noteq> 0)
        \<and> numeraire (last path) \<noteq> 0
        \<and> length path - 1 \<le> length (ContingentBond.myDt p) \<and> payoffs \<noteq> []
        \<and> 0 < spot (hd path) * ContingentBond.mySmooth p"
  then have "spot (hd path) * ContingentBond.mySmooth p \<noteq> 0
         \<or> (\<forall>i < length path - 1. spot (path ! (i + 1)) \<noteq> spot (path ! i))"
    by (metis less_irrefl)
  with wf show "\<exists>r. ContingentBond_payoffs p path payoffs = Inr r"
    using ContingentBond_payoffs_eval [of path p payoffs] by blast
qed

theorem ContingentBond_division_guard_witness:
  "ContingentBond_payoffs bond_hard
     [coupon_node 100 (2 / 100) 1, coupon_node 110 (2 / 100) 1, coupon_node 110 0 1] [0]
   = Inl DivByZero
   \<and> ContingentBond_digital 0 110 110 = Inl DivByZero
   \<and> ContingentBond_digital (1 / 10) 110 110 = Inr (1 / 2)"
proof -
  define path where
    "path = [coupon_node 100 (2 / 100) 1, coupon_node 110 (2 / 100) 1, coupon_node 110 0 1]"
  have len: "length path - 1 = Suc (Suc 0)"
    by (simp add: path_def)
  have nodes: "path ! 0 = coupon_node 100 (2 / 100) 1" "path ! Suc 0 = coupon_node 110 (2 / 100) 1"
    "path ! Suc (Suc 0) = coupon_node 110 0 1" "hd path = coupon_node 100 (2 / 100) 1"
    by (simp_all add: path_def)
  have wf: "path \<noteq> [] \<and> (\<forall>s \<in> set path. forwards s \<noteq> [])
        \<and> (\<forall>i < length path - 1. libors (path ! i) \<noteq> [])
        \<and> length path - 1 \<le> length (ContingentBond.myDt bond_hard) \<and> [0::real] \<noteq> []
        \<and> spot (hd path) * ContingentBond.mySmooth bond_hard = 0
        \<and> Suc 0 < length path - 1 \<and> spot (path ! (Suc 0 + 1)) = spot (path ! Suc 0)"
    unfolding len
    by (simp add: All_less_Suc nodes coupon_node_def spot_def bond_hard_def bond_semi_def)
      (simp add: path_def coupon_node_def)
  have pos: "(0::real) < 1 / 10"
    by simp
  from ContingentBond_division_guard [of "1 / 10" 110 110 path bond_hard "[0]" "Suc 0"] wf pos
  have "ContingentBond_payoffs bond_hard path [0] = Inl DivByZero"
    and "ContingentBond_digital 0 110 110 = Inl DivByZero"
    and "ContingentBond_digital (1 / 10) 110 110 = Inr (digital_spec (1 / 10) 110 110)"
    by simp_all
  then show ?thesis
    by (simp add: path_def digital_spec_def)
qed

subsection \<open>Coverages in the payoff of ContingentBond\<close>

text \<open>
  C10: every \<open>ContingentBond\<close> the constructor returns has one coverage per interval of
  its timeline, \<open>myDt ! i = myTimeline ! (i + 1) - myTimeline ! i\<close>. The amount one round of
  the loop adds for period \<open>i\<close> is computed with exactly that difference, and so is the
  value \<open>ContingentBond_payoffs\<close> returns on a path aligned with the timeline: the coverage
  of period \<open>i\<close> in the sum is \<open>myTimeline ! (i + 1) - myTimeline ! i\<close>.
\<close>

theorem ContingentBond_coverage:
  assumes "ContingentBond systemTime maturity cpn payFreq smooth = Some b"
  shows "length (ContingentBond.myDt b) = length (ContingentBond.myTimeline b) - 1
         \<and> (\<forall>i < length (ContingentBond.myDt b).
               ContingentBond.myDt b ! i
               = ContingentBond.myTimeline b ! (i + 1) - ContingentBond.myTimeline b ! i)
         \<and> (\<forall>path i s d.
               i < length (ContingentBond.myTimeline b) - 1 \<and> i + 1 < length path
               \<and> forwards (path ! i) \<noteq> [] \<and> forwards (path ! (i + 1)) \<noteq> []
               \<and> libors (path ! i) \<noteq> [] \<and> numeraire (path ! (i + 1)) \<noteq> 0
               \<and> ContingentBond_digital s (spot (path ! i)) (spot (path ! (i + 1))) = Inr d \<longrightarrow>
               ContingentBond_period b s path i
               = Inr (d * (libors (path ! i) ! 0 + ContingentBond.myCpn b)
                      * (ContingentBond.myTimeline b ! (i + 1) - ContingentBond.myTimeline b ! i)
                      / numeraire (path ! (i + 1))))
         \<and> (\<forall>path payoffs.
               length path = length (ContingentBond.myTimeline b)
               \<and> (\<forall>s \<in> set path. forwards s \<noteq> [])
               \<and> (\<forall>i < length path - 1.
                     libors (path ! i) \<noteq> [] \<and> numeraire (path ! (i + 1)) \<noteq> 0)
               \<and> numeraire (last path) \<noteq> 0 \<and> payoffs \<noteq> []
               \<and> (spot (hd path) * ContingentBond.mySmooth b \<noteq> 0
                    \<or> (\<forall>i < length path - 1. spot (path ! (i + 1)) \<noteq> spot (path ! i))) \<longrightarrow>
               ContingentBond_payoffs b path payoffs
               = Inr (payoffs[0 :=
                   (\<Sum>i = 0..<length (ContingentBond.myTimeline b) - 1.
                       digital_spec (spot (hd path) * ContingentBond.mySmooth b)
                         (spot (path ! i)) (spot (path ! (i + 1)))
                       * (libors (path ! i) ! 0 + ContingentBond.myCpn b)
                       * (ContingentBond.myTimeline b ! (i + 1) - ContingentBond.myTimeline b ! i)
                       / numeraire (path ! (i + 1)))
                   + 1 / numeraire (last path)]))"
proof -
  have dt: "ContingentBond.myDt b = coverages (ContingentBond.myTimeline b)"
    using assms by (rule ContingentBond_myDt)
  have len: "length (ContingentBond.myDt b) = length (ContingentBond.myTimeline b) - 1"
    by (simp add: dt coverages_def)
  have nth: "ContingentBond.myDt b ! i
             = ContingentBond.myTimeline b ! (i + 1) - ContingentBond.myTimeline b ! i"
    if "i < length (ContingentBond.myTimeline b) - 1" for i
    using that by (simp add: dt coverages_def)
  have period: "ContingentBond_period b s path i
           = Inr (d * (libors (path ! i) ! 0 + ContingentBond.myCpn b)
                  * (ContingentBond.myTimeline b ! (i + 1) - ContingentBond.myTimeline b ! i)
                  / numeraire (path ! (i + 1)))"
    if "i < length (ContingentBond.myTimeline b) - 1" and "i + 1 < length path"
      and "forwards (path ! i) \<noteq> []" and "forwards (path ! (i + 1)) \<noteq> []"
      and "libors (path ! i) \<noteq> []" and "numeraire (path ! (i + 1)) \<noteq> 0"
      and "ContingentBond_digital s (spot (path ! i)) (spot (path ! (i + 1))) = Inr d"
    for path i s d
  proof -
    have "i < length (ContingentBond.myDt b)"
      using that(1) len by simp
    from ContingentBond_period_eval [OF that(2-5) this that(6,7)] show ?thesis
      by (simp add: nth [OF that(1)])
  qed
  have whole: "ContingentBond_payoffs b path payoffs
        = Inr (payoffs[0 :=
            (\<Sum>i = 0..<length (ContingentBond.myTimeline b) - 1.
                digital_spec (spot (hd path) * ContingentBond.mySmooth b)
                  (spot (path ! i)) (spot (path ! (i + 1)))
                * (libors (path ! i) ! 0 + ContingentBond.myCpn b)
                * (ContingentBond.myTimeline b ! (i + 1) - ContingentBond.myTimeline b ! i)
                / numeraire (path ! (i + 1)))
            + 1 / numeraire (last path)])"
    if "length path = length (ContingentBond.myTimeline b)"
      and "\<forall>s \<in> set path. forwards s \<noteq> []"
      and "\<forall>i < length path - 1. libors (path ! i) \<noteq> [] \<and> numeraire (path ! (i + 1)) \<noteq> 0"
      and "numeraire (last path) \<noteq> 0" and "payoffs \<noteq> []"
      and "spot (hd path) * ContingentBond.mySmooth b \<noteq> 0
           \<or> (\<forall>i < length path - 1. spot (path ! (i + 1)) \<noteq> spot (path ! i))"
    for path payoffs
  proof -
    have "ContingentBond.myTimeline b \<noteq> []"
      using assms by (rule ContingentBond_timeline_nonempty)
    then have ne: "path \<noteq> []"
      using that(1) by auto
    have room: "length path - 1 \<le> length (ContingentBond.myDt b)"
      using that(1) len by simp
    have "(\<Sum>i = 0..<length path - 1.
              digital_spec (spot (hd path) * ContingentBond.mySmooth b)
                (spot (path ! i)) (spot (path ! (i + 1)))
              * (libors (path ! i) ! 0 + ContingentBond.myCpn b)
              * (ContingentBond.myDt b ! i) / numeraire (path ! (i + 1)))
          = (\<Sum>i = 0..<length (ContingentBond.myTimeline b) - 1.
              digital_spec (spot (hd path) * ContingentBond.mySmooth b)
                (spot (path ! i)) (spot (path ! (i + 1)))
              * (libors (path ! i) ! 0 + ContingentBond.myCpn b)
              * (ContingentBond.myTimeline b ! (i + 1) - ContingentBond.myTimeline b ! i)
              / numeraire (path ! (i + 1)))"
      unfolding that(1) by (intro sum.cong refl) (simp add: nth)
    with ContingentBond_payoffs_eval [OF ne that(2,3,4) room that(5,6)] show ?thesis
      by simp
  qed
  show ?thesis
  proof (intro conjI allI impI)
    show "length (ContingentBond.myDt b) = length (ContingentBond.myTimeline b) - 1"
      by (rule len)
  next
    fix i assume "i < length (ContingentBond.myDt b)"
    then show "ContingentBond.myDt b ! i
               = ContingentBond.myTimeline b ! (i + 1) - ContingentBond.myTimeline b ! i"
      using len nth by simp
  next
    fix path i s d
    assume "i < length (ContingentBond.myTimeline b) - 1 \<and> i + 1 < length path
               \<and> forwards (path ! i) \<noteq> [] \<and> forwards (path ! (i + 1)) \<noteq> []
               \<and> libors (path ! i) \<noteq> [] \<and> numeraire (path ! (i + 1)) \<noteq> 0
               \<and> ContingentBond_digital s (spot (path ! i)) (spot (path ! (i + 1))) = Inr d"
    then show "ContingentBond_period b s path i
               = Inr (d * (libors (path ! i) ! 0 + ContingentBond.myCpn b)
                      * (ContingentBond.myTimeline b ! (i + 1) - ContingentBond.myTimeline b ! i)
                      / numeraire (path ! (i + 1)))"
      by (intro period) blast+
  next
    fix path :: Scenario and payoffs :: "real list"
    assume "length path = length (ContingentBond.myTimeline b)
               \<and> (\<forall>s \<in> set path. forwards s \<noteq> [])
               \<and> (\<forall>i < length path - 1.
                     libors (path ! i) \<noteq> [] \<and> numeraire (path ! (i + 1)) \<noteq> 0)
               \<and> numeraire (last path) \<noteq> 0 \<and> payoffs \<noteq> []
               \<and> (spot (hd path) * ContingentBond.mySmooth b \<noteq> 0
                    \<or> (\<forall>i < length path - 1. spot (path ! (i + 1)) \<noteq> spot (path ! i)))"
    then show "ContingentBond_payoffs b path payoffs
               = Inr (payoffs[0 :=
                   (\<Sum>i = 0..<length (ContingentBond.myTimeline b) - 1.
                       digital_spec (spot (hd path) * ContingentBond.mySmooth b)
                         (spot (path ! i)) (spot (path ! (i + 1)))
                       * (libors (path ! i) ! 0 + ContingentBond.myCpn b)
                       * (ContingentBond.myTimeline b ! (i + 1) - ContingentBond.myTimeline b ! i)
                       / numeraire (path ! (i + 1)))
                   + 1 / numeraire (last path)])"
      by (intro whole) blast+
  qed
qed

theorem ContingentBond_coverage_witness:
  "ContingentBond 0 1 (3 / 100) (1 / 2) (1 / 10) = Some bond_semi
   \<and> ContingentBond.myTimeline bond_semi = [0, 1 / 2, 1]
   \<and> ContingentBond.myDt bond_semi = [1 / 2, 1 / 2]
   \<and> length (ContingentBond.myDt bond_semi) = length (ContingentBond.myTimeline bond_semi) - 1
   \<and> ContingentBond.myDt bond_semi ! 1
       = ContingentBond.myTimeline bond_semi ! 2 - ContingentBond.myTimeline bond_semi ! 1
   \<and> ContingentBond_payoffs bond_semi
        [coupon_node 100 (1 / 100) 1, coupon_node 105 (3 / 100) 2, coupon_node 130 0 4] [0]
       = Inr [53 / 200]"
proof -
  define path where
    "path = [coupon_node 100 (1 / 100) 1, coupon_node 105 (3 / 100) 2, coupon_node 130 0 4]"
  have built: "ContingentBond 0 1 (3 / 100) (1 / 2) (1 / 10) = Some bond_semi"
    by (simp add: ContingentBond_def ContingentBond_schedule.simps ONE_DAY_def
        ContingentBond_dataline_def bond_semi_def upt_rec)
  note all = ContingentBond_coverage [OF built]
  have len: "length path - 1 = Suc (Suc 0)" "length (ContingentBond.myTimeline bond_semi) - 1 = Suc (Suc 0)"
    by (simp_all add: path_def bond_semi_def)
  have nodes: "path ! 0 = coupon_node 100 (1 / 100) 1" "path ! Suc 0 = coupon_node 105 (3 / 100) 2"
    "path ! Suc (Suc 0) = coupon_node 130 0 4" "hd path = coupon_node 100 (1 / 100) 1"
    "last path = coupon_node 130 0 4"
    by (simp_all add: path_def)
  have aligned: "length path = length (ContingentBond.myTimeline bond_semi)
        \<and> (\<forall>s \<in> set path. forwards s \<noteq> [])
        \<and> (\<forall>i < length path - 1. libors (path ! i) \<noteq> [] \<and> numeraire (path ! (i + 1)) \<noteq> 0)
        \<and> numeraire (last path) \<noteq> 0 \<and> [0 :: real] \<noteq> []
        \<and> (spot (hd path) * ContingentBond.mySmooth bond_semi \<noteq> 0
             \<or> (\<forall>i < length path - 1. spot (path ! (i + 1)) \<noteq> spot (path ! i)))"
    unfolding len
    by (simp add: All_less_Suc nodes coupon_node_def spot_def)
      (simp add: path_def bond_semi_def coupon_node_def)
  from all [THEN conjunct2, THEN conjunct2, THEN conjunct2, rule_format, OF aligned]
  have pay: "ContingentBond_payoffs bond_semi path [0] = Inr [53 / 200]"
    unfolding len
    by (simp add: nodes coupon_node_def spot_def digital_spec_def bond_semi_def)
  from all built pay show ?thesis
    by (simp add: bond_semi_def path_def)
qed

subsection \<open>Europeans\<close>

lemma Europeans_transform_eval:
  "num \<noteq> 0 \<Longrightarrow> pos + length ks \<le> length payoffs \<Longrightarrow>
   Europeans_transform s num ks pos payoffs
     = Inr (take pos payoffs @ map (\<lambda>k. max (s - k) 0 / num) ks @ drop (pos + length ks) payoffs)"
proof (induction ks arbitrary: pos payoffs)
  case Nil
  then show ?case by simp
next
  case (Cons k ks)
  let ?v = "max (s - k) 0 / num"
  have pos: "pos < length payoffs"
    using Cons.prems(2) by simp
  have "Europeans_transform s num (k # ks) pos payoffs
        = Europeans_transform s num ks (pos + 1) (payoffs[pos := ?v])"
    using Cons.prems(1) pos by simp
  also have "\<dots> = Inr (take (pos + 1) (payoffs[pos := ?v]) @ map (\<lambda>k. max (s - k) 0 / num) ks
                         @ drop (pos + 1 + length ks) (payoffs[pos := ?v]))"
    using Cons.prems by (intro Cons.IH) simp_all
  also have "take (pos + 1) (payoffs[pos := ?v]) = take pos payoffs @ [?v]"
    using pos by (simp add: take_Suc_conv_app_nth)
  also have "drop (pos + 1 + length ks) (payoffs[pos := ?v]) = drop (pos + length (k # ks)) payoffs"
    by simp
  finally show ?case by simp
qed

lemma Europeans_loop_eval:
  assumes "\<forall>i \<in> set is. i < length path \<and> i < length (Europeans.myStrikes p)
             \<and> forwards (path ! i) \<noteq> [] \<and> numeraire (path ! i) \<noteq> 0"
    and "pos + length (strip_spec path (Europeans.myStrikes p) is) \<le> length payoffs"
  shows "Europeans_loop p path is pos payoffs
         = Inr (take pos payoffs @ strip_spec path (Europeans.myStrikes p) is
                @ drop (pos + length (strip_spec path (Europeans.myStrikes p) is)) payoffs)"
  using assms
proof (induction "is" arbitrary: pos payoffs)
  case Nil
  then show ?case by (simp add: strip_spec_def)
next
  case (Cons i rest)
  let ?ks = "Europeans.myStrikes p ! i"
  let ?vals = "map (\<lambda>k. max (spot (path ! i) - k) 0 / numeraire (path ! i)) ?ks"
  let ?tail = "strip_spec path (Europeans.myStrikes p) rest"
  let ?mid = "take pos payoffs @ ?vals @ drop (pos + length ?ks) payoffs"
  have split: "strip_spec path (Europeans.myStrikes p) (i # rest) = ?vals @ ?tail"
    by (simp add: strip_spec_def)
  have i: "i < length path" "i < length (Europeans.myStrikes p)"
    "forwards (path ! i) \<noteq> []" "numeraire (path ! i) \<noteq> 0"
    using Cons.prems(1) by simp_all
  have room: "pos + length ?ks + length ?tail \<le> length payoffs"
    using Cons.prems(2) by (simp add: split)
  then have room1: "pos + length ?ks \<le> length payoffs"
    by simp
  have step: "Europeans_transform (spot (path ! i)) (numeraire (path ! i)) ?ks pos payoffs = Inr ?mid"
    using i(4) room1 by (rule Europeans_transform_eval)
  have len_mid: "length ?mid = length payoffs"
    using room1 by simp
  have "Europeans_loop p path (i # rest) pos payoffs
        = Europeans_loop p path rest (pos + length ?ks) ?mid"
    using i step by (simp add: spot_def)
  also have "\<dots> = Inr (take (pos + length ?ks) ?mid @ ?tail
                         @ drop (pos + length ?ks + length ?tail) ?mid)"
    using Cons.prems(1) room len_mid by (intro Cons.IH) simp_all
  also have "take (pos + length ?ks) ?mid = take pos payoffs @ ?vals"
    using room1 by simp
  also have "drop (pos + length ?ks + length ?tail) ?mid
             = drop (pos + length ?ks + length ?tail) payoffs"
    using room1 by (simp add: add.commute)
  finally show ?case
    by (simp add: split add.assoc)
qed

lemma Europeans_keys:
  "Europeans.myMaturities (Europeans options) = sorted_list_of_fset (fmdom options)"
  "Europeans.myStrikes (Europeans options)
     = map (\<lambda>t. the (fmlookup options t)) (sorted_list_of_fset (fmdom options))"
  by (simp_all add: Europeans_def sorted_list_of_fmap_def Let_def comp_def)

lemma Europeans_labels_width:
  "length (Europeans.myLabels (Europeans options))
     = sum_list (map length (Europeans.myStrikes (Europeans options)))"
  by (simp add: Europeans_def Let_def length_concat comp_def)

lemma strip_spec_width:
  "length (strip_spec path strikes [0..<length strikes]) = sum_list (map length strikes)"
proof -
  have "length (strip_spec path strikes [0..<length strikes])
        = sum_list (map (\<lambda>i. length (strikes ! i)) [0..<length strikes])"
    by (simp add: strip_spec_def length_concat comp_def)
  also have "map (\<lambda>i. length (strikes ! i)) [0..<length strikes] = map length strikes"
    by (intro nth_equalityI) simp_all
  finally show ?thesis .
qed

lemma sorted_pair:
  fixes T1 T2 :: real
  assumes "T1 < T2"
  shows "sorted_list_of_fset {|T1, T2|} = [T1, T2]"
proof -
  have "sorted_list_of_set {T1, T2} = [T1, T2]"
    using assms by (simp add: insort_is_Cons less_imp_le)
  then show ?thesis
    by (simp add: sorted_list_of_fset.rep_eq)
qed

lemma Europeans_pair:
  fixes T1 T2 :: real
  assumes "T1 < T2"
  shows "Europeans.myMaturities (Europeans (fmupd T1 a (fmupd T2 b fmempty))) = [T1, T2]"
    and "Europeans.myStrikes (Europeans (fmupd T1 a (fmupd T2 b fmempty))) = [a, b]"
  using assms by (simp_all add: Europeans_keys sorted_pair)

lemma Europeans_timeline_sorted:
  "sorted_wrt (<) (Europeans.myMaturities (Europeans options))"
  "set (Europeans.myMaturities (Europeans options)) = fset (fmdom options)"
  "length (Europeans.myStrikes (Europeans options))
     = length (Europeans.myMaturities (Europeans options))"
  by (simp_all add: Europeans_keys sorted_list_of_fset.rep_eq)

lemma Europeans_strikes_lookup:
  assumes "i < length (Europeans.myMaturities (Europeans options))"
  shows "fmlookup options (Europeans.myMaturities (Europeans options) ! i)
         = Some (Europeans.myStrikes (Europeans options) ! i)"
proof -
  let ?keys = "sorted_list_of_fset (fmdom options)"
  have i: "i < length ?keys"
    using assms by (simp add: Europeans_keys)
  then have "?keys ! i \<in> set ?keys"
    by (rule nth_mem)
  then have "?keys ! i |\<in>| fmdom options"
    by simp
  then obtain ks where "fmlookup options (?keys ! i) = Some ks"
    by (auto simp add: fmlookup_dom_iff)
  then show ?thesis
    using i by (simp add: Europeans_keys)
qed

lemma Europeans_payoffs_eval:
  assumes "length path = length (Europeans.myMaturities p)"
    and "length (Europeans.myStrikes p) = length (Europeans.myMaturities p)"
    and "\<forall>s \<in> set path. forwards s \<noteq> [] \<and> numeraire s \<noteq> 0"
    and "length payoffs = sum_list (map length (Europeans.myStrikes p))"
  shows "Europeans_payoffs p path payoffs
         = Inr (strip_spec path (Europeans.myStrikes p) [0..<length (Europeans.myMaturities p)])"
proof -
  let ?n = "length (Europeans.myMaturities p)"
  have width: "length (strip_spec path (Europeans.myStrikes p) [0..<?n]) = length payoffs"
    using strip_spec_width [of path "Europeans.myStrikes p"] assms(2,4) by simp
  have "\<forall>i \<in> set [0..<?n]. i < length path \<and> i < length (Europeans.myStrikes p)
             \<and> forwards (path ! i) \<noteq> [] \<and> numeraire (path ! i) \<noteq> 0"
    using assms(1,2,3) by simp
  moreover have "0 + length (strip_spec path (Europeans.myStrikes p) [0..<?n]) \<le> length payoffs"
    using width by simp
  ultimately have "Europeans_loop p path [0..<?n] 0 payoffs
         = Inr (take 0 payoffs @ strip_spec path (Europeans.myStrikes p) [0..<?n]
                @ drop (0 + length (strip_spec path (Europeans.myStrikes p) [0..<?n])) payoffs)"
    by (rule Europeans_loop_eval)
  then show ?thesis
    using width by (simp add: Europeans_payoffs_def)
qed

lemma Europeans_example:
  fixes T1 T2 :: real
  assumes "T1 < T2" and "forwards s1 \<noteq> []" and "numeraire s1 \<noteq> 0"
    and "forwards s2 \<noteq> []" and "numeraire s2 \<noteq> 0" and "length payoffs = 3"
  shows "Europeans.myMaturities (Europeans (fmupd T1 [90, 100] (fmupd T2 [95] fmempty))) = [T1, T2]"
    and "length (Europeans.myLabels (Europeans (fmupd T1 [90, 100] (fmupd T2 [95] fmempty)))) = 3"
    and "Europeans_payoffs (Europeans (fmupd T1 [90, 100] (fmupd T2 [95] fmempty))) [s1, s2] payoffs
         = Inr [max (spot s1 - 90) 0 / numeraire s1, max (spot s1 - 100) 0 / numeraire s1,
                max (spot s2 - 95) 0 / numeraire s2]"
proof -
  let ?e = "Europeans (fmupd T1 [90, 100] (fmupd T2 [95] fmempty))"
  show m: "Europeans.myMaturities ?e = [T1, T2]"
    using assms(1) by (rule Europeans_pair(1))
  have k: "Europeans.myStrikes ?e = [[90, 100], [95]]"
    using assms(1) by (rule Europeans_pair(2))
  show "length (Europeans.myLabels ?e) = 3"
    by (simp add: Europeans_labels_width k)
  have "Europeans_payoffs ?e [s1, s2] payoffs
        = Inr (strip_spec [s1, s2] (Europeans.myStrikes ?e) [0..<length (Europeans.myMaturities ?e)])"
    using assms(2-6) by (intro Europeans_payoffs_eval) (simp_all add: m k)
  also have "[0..<length (Europeans.myMaturities ?e)] = [0, Suc 0]"
    by (simp add: m upt_rec)
  finally show "Europeans_payoffs ?e [s1, s2] payoffs
         = Inr [max (spot s1 - 90) 0 / numeraire s1, max (spot s1 - 100) 0 / numeraire s1,
                max (spot s2 - 95) 0 / numeraire s2]"
    by (simp add: k strip_spec_def)
qed

text \<open>
  C4: the timeline of \<open>Europeans options\<close> is the keys of the map in strictly ascending
  order, each with the strikes the map gives it, in their order; there are as many labels
  as strikes. On a path aligned with the timeline (a forward and a nonzero numeraire on
  every node) and a buffer as wide as the labels, \<open>Europeans_payoffs\<close> returns the
  maturity-major strip \<open>strip_spec\<close>. For \<open>T1 < T2\<close> and the map
  \<open>T1 \<mapsto> [90, 100], T2 \<mapsto> [95]\<close> the timeline is \<open>[T1, T2]\<close>, the width is 3 and the
  buffer holds the calls T1/90, T1/100 and T2/95 in that order.
\<close>

theorem Europeans_maturity_major:
  fixes options :: "(Time, real list) fmap" and T1 T2 :: Time
  shows "let e = Europeans options;
             maturities = Europeans.myMaturities e;
             strikes = Europeans.myStrikes e
         in sorted_wrt (<) maturities \<and> set maturities = fset (fmdom options)
          \<and> (\<forall>i < length maturities. fmlookup options (maturities ! i) = Some (strikes ! i))
          \<and> length (Europeans.myLabels e) = sum_list (map length strikes)
          \<and> (length path = length maturities
               \<and> (\<forall>s \<in> set path. forwards s \<noteq> [] \<and> numeraire s \<noteq> 0)
               \<and> length payoffs = length (Europeans.myLabels e) \<longrightarrow>
               Europeans_payoffs e path payoffs
               = Inr (strip_spec path strikes [0..<length maturities]))
          \<and> (T1 < T2 \<and> options = fmupd T1 [90, 100] (fmupd T2 [95] fmempty)
               \<and> path = [s1, s2] \<and> forwards s1 \<noteq> [] \<and> numeraire s1 \<noteq> 0
               \<and> forwards s2 \<noteq> [] \<and> numeraire s2 \<noteq> 0 \<and> length payoffs = 3 \<longrightarrow>
               maturities = [T1, T2] \<and> length (Europeans.myLabels e) = 3
               \<and> Europeans_payoffs e path payoffs
                   = Inr [max (spot s1 - 90) 0 / numeraire s1,
                          max (spot s1 - 100) 0 / numeraire s1,
                          max (spot s2 - 95) 0 / numeraire s2])"
proof -
  let ?e = "Europeans options"
  have general: "Europeans_payoffs ?e path payoffs
        = Inr (strip_spec path (Europeans.myStrikes ?e) [0..<length (Europeans.myMaturities ?e)])"
    if "length path = length (Europeans.myMaturities ?e)"
      and "\<forall>s \<in> set path. forwards s \<noteq> [] \<and> numeraire s \<noteq> 0"
      and "length payoffs = length (Europeans.myLabels ?e)"
    using that by (intro Europeans_payoffs_eval) (simp_all add: Europeans_timeline_sorted(3)
        Europeans_labels_width)
  have example: "Europeans.myMaturities ?e = [T1, T2] \<and> length (Europeans.myLabels ?e) = 3
        \<and> Europeans_payoffs ?e path payoffs
            = Inr [max (spot s1 - 90) 0 / numeraire s1, max (spot s1 - 100) 0 / numeraire s1,
                   max (spot s2 - 95) 0 / numeraire s2]"
    if "T1 < T2" and "options = fmupd T1 [90, 100] (fmupd T2 [95] fmempty)"
      and "path = [s1, s2]" and "forwards s1 \<noteq> []" and "numeraire s1 \<noteq> 0"
      and "forwards s2 \<noteq> []" and "numeraire s2 \<noteq> 0" and "length payoffs = 3"
    unfolding that(2,3) using Europeans_example [OF that(1,4-8)] by simp
  show ?thesis
    unfolding Let_def
    using Europeans_timeline_sorted(1,2) [of options] Europeans_strikes_lookup [of _ options]
      Europeans_labels_width [of options] general example
    by blast
qed

theorem Europeans_maturity_major_witness:
  "Europeans.myMaturities (Europeans (fmupd 1 [90, 100] (fmupd 2 [95] fmempty))) = [1, 2]
   \<and> length (Europeans.myLabels (Europeans (fmupd 1 [90, 100] (fmupd 2 [95] fmempty)))) = 3
   \<and> Europeans_payoffs (Europeans (fmupd 1 [90, 100] (fmupd 2 [95] fmempty)))
        [node 100 1, node 105 2] [0, 0, 0]
      = Inr [10, 0, 5]"
proof -
  have wf: "(1::real) < 2 \<and> fmupd (1::real) [90, 100] (fmupd 2 [95] fmempty)
              = fmupd 1 [90, 100] (fmupd 2 [95] fmempty)
            \<and> [node 100 1, node 105 2] = [node 100 1, node 105 2]
            \<and> forwards (node 100 1) \<noteq> [] \<and> numeraire (node 100 1) \<noteq> 0
            \<and> forwards (node 105 2) \<noteq> [] \<and> numeraire (node 105 2) \<noteq> 0
            \<and> length [0 :: real, 0, 0] = 3"
    by (simp add: node_def)
  from Europeans_maturity_major
    [of "fmupd 1 [90, 100] (fmupd 2 [95] fmempty)" "[node 100 1, node 105 2]" "[0, 0, 0]"
      1 2 "node 100 1" "node 105 2", unfolded Let_def] wf
  have "Europeans.myMaturities (Europeans (fmupd 1 [90, 100] (fmupd 2 [95] fmempty))) = [1, 2]
        \<and> length (Europeans.myLabels (Europeans (fmupd 1 [90, 100] (fmupd 2 [95] fmempty)))) = 3
        \<and> Europeans_payoffs (Europeans (fmupd 1 [90, 100] (fmupd 2 [95] fmempty)))
            [node 100 1, node 105 2] [0, 0, 0]
          = Inr [max (spot (node 100 1) - 90) 0 / numeraire (node 100 1),
                 max (spot (node 100 1) - 100) 0 / numeraire (node 100 1),
                 max (spot (node 105 2) - 95) 0 / numeraire (node 105 2)]"
    by blast
  then show ?thesis
    by (simp add: node_def spot_def)
qed

subsection \<open>No check of the call contract\<close>

lemma Europeans_payoffs_eval_wide:
  assumes "length (Europeans.myMaturities p) \<le> length path"
    and "length (Europeans.myStrikes p) = length (Europeans.myMaturities p)"
    and "\<forall>i < length (Europeans.myMaturities p). forwards (path ! i) \<noteq> [] \<and> numeraire (path ! i) \<noteq> 0"
    and "sum_list (map length (Europeans.myStrikes p)) \<le> length payoffs"
  shows "Europeans_payoffs p path payoffs
         = Inr (strip_spec path (Europeans.myStrikes p) [0..<length (Europeans.myMaturities p)]
                @ drop (sum_list (map length (Europeans.myStrikes p))) payoffs)"
proof -
  let ?n = "length (Europeans.myMaturities p)"
  have width: "length (strip_spec path (Europeans.myStrikes p) [0..<?n])
               = sum_list (map length (Europeans.myStrikes p))"
    using strip_spec_width [of path "Europeans.myStrikes p"] assms(2) by simp
  have "\<forall>i \<in> set [0..<?n]. i < length path \<and> i < length (Europeans.myStrikes p)
             \<and> forwards (path ! i) \<noteq> [] \<and> numeraire (path ! i) \<noteq> 0"
    using assms(1,2,3) by simp
  moreover have "0 + length (strip_spec path (Europeans.myStrikes p) [0..<?n]) \<le> length payoffs"
    using width assms(4) by simp
  ultimately have "Europeans_loop p path [0..<?n] 0 payoffs
         = Inr (take 0 payoffs @ strip_spec path (Europeans.myStrikes p) [0..<?n]
                @ drop (0 + length (strip_spec path (Europeans.myStrikes p) [0..<?n])) payoffs)"
    by (rule Europeans_loop_eval)
  then show ?thesis
    using width by (simp add: Europeans_payoffs_def)
qed

lemma Europeans_loop_labels:
  "Europeans_loop (p \<lparr> Europeans.myLabels := ls, Europeans.myDataline := dl \<rparr>) path is pos payoffs
   = Europeans_loop p path is pos payoffs"
proof (induction "is" arbitrary: pos payoffs)
  case Nil
  show ?case by simp
next
  case (Cons i rest)
  show ?case
    by (cases "elem (Europeans.myStrikes p) i"; cases "elem path i")
      (auto simp add: Cons.IH bindE_def split: sum.splits)
qed

lemma ContingentBond_period_fields:
  "ContingentBond_period (p \<lparr> ContingentBond.myTimeline := ts, ContingentBond.myDataline := dl,
      ContingentBond.myLabels := ls \<rparr>) smooth path i
   = ContingentBond_period p smooth path i"
  by (simp add: ContingentBond_period_def)

lemma ContingentBond_loop_fields:
  "ContingentBond_loop (p \<lparr> ContingentBond.myTimeline := ts, ContingentBond.myDataline := dl,
      ContingentBond.myLabels := ls \<rparr>) smooth path is payoffs
   = ContingentBond_loop p smooth path is payoffs"
proof (induction "is" arbitrary: payoffs)
  case Nil
  show ?case by simp
next
  case (Cons i rest)
  have "ContingentBond_loop (p \<lparr> ContingentBond.myTimeline := ts, ContingentBond.myDataline := dl,
      ContingentBond.myLabels := ls \<rparr>) smooth path rest
        = ContingentBond_loop p smooth path rest"
    by (rule ext) (rule Cons.IH)
  then show ?case
    by (simp add: ContingentBond_period_fields)
qed

lemma strip_pair_fields:
  "Europeans.myMaturities strip_pair = [1, 2]"
  "Europeans.myStrikes strip_pair = [[90, 100], [95]]"
  "length (Europeans.myLabels strip_pair) = 3"
proof -
  have lt: "(1::real) < 2" by simp
  show m: "Europeans.myMaturities strip_pair = [1, 2]"
    unfolding strip_pair_def using lt by (rule Europeans_pair(1))
  show k: "Europeans.myStrikes strip_pair = [[90, 100], [95]]"
    unfolding strip_pair_def using lt by (rule Europeans_pair(2))
  show "length (Europeans.myLabels strip_pair) = 3"
    using k by (simp add: strip_pair_def Europeans_labels_width)
qed

lemma strip_pair_wide:
  "Europeans_payoffs strip_pair [node 100 1, node 105 2, node 300 1] [0, 0, 0, 9]
   = Inr [10, 0, 5, 9]"
proof -
  have "Europeans_payoffs strip_pair [node 100 1, node 105 2, node 300 1] [0, 0, 0, 9]
        = Inr (strip_spec [node 100 1, node 105 2, node 300 1] (Europeans.myStrikes strip_pair)
                 [0..<length (Europeans.myMaturities strip_pair)]
               @ drop (sum_list (map length (Europeans.myStrikes strip_pair))) [0, 0, 0, 9])"
    by (intro Europeans_payoffs_eval_wide)
      (simp_all add: strip_pair_fields All_less_Suc numeral_2_eq_2 node_def)
  also have "[0..<length (Europeans.myMaturities strip_pair)] = [0, Suc 0]"
    by (simp add: strip_pair_fields upt_rec)
  finally show ?thesis
    by (simp add: strip_pair_fields strip_spec_def node_def spot_def)
qed

text \<open>
  C8 (as amended): no \<open>payoffs\<close> method checks the length of the path against the
  timeline or the width of the buffer against the labels; none reads the timeline,
  dataline or labels of its product (for \<open>Europeans\<close> the timeline is the list of
  maturities, whose length bounds the loop). Each returns normally whenever the entries
  its formula reads and writes exist:
  \<^item> \<open>European_payoffs\<close> reads the first node only, whatever follows it, and changes slot 0
    only;
  \<^item> \<open>UOC_payoffs\<close> walks any non-empty path and changes slots 0 and 1 only of any buffer
    of two slots or more;
  \<^item> \<open>Europeans_payoffs\<close> reads one node per maturity of a path at least that long and
    leaves the slots beyond the strip as they were;
  \<^item> \<open>ContingentBond_payoffs\<close> runs over any non-empty path with no more periods than
    coverages and changes slot 0 only.
\<close>

theorem payoffs_unchecked:
  "(forwards s \<noteq> [] \<and> discounts s \<noteq> [] \<and> numeraire s \<noteq> 0 \<and> pe \<noteq> [] \<longrightarrow>
      European_payoffs e (s # rest) pe
      = Inr (pe[0 := max (forwards s ! 0 - European.myStrike e) 0
                      * (discounts s ! 0) / numeraire s]))
   \<and> European_payoffs (e \<lparr> European.myTimeline := ts, European.myDataline := dl,
          European.myLabels := ls \<rparr>) qe pe = European_payoffs e qe pe
   \<and> (qu \<noteq> [] \<and> (\<forall>s \<in> set qu. forwards s \<noteq> []) \<and> numeraire (last qu) \<noteq> 0
        \<and> 2 \<le> length pu \<longrightarrow>
      UOC_payoffs u qu pu
      = Inr (pu[1 := max (spot (last qu) - UOC.myStrike u) 0 / numeraire (last qu),
                0 := alive_spec (UOC.myBarrier u) (spot (hd qu) * UOC.mySmooth u) 1 (map spot qu)
                     * (max (spot (last qu) - UOC.myStrike u) 0 / numeraire (last qu))]))
   \<and> UOC_payoffs (u \<lparr> UOC.myTimeline := ts, UOC.myDataline := dl, UOC.myLabels := ls \<rparr>) qu pu
       = UOC_payoffs u qu pu
   \<and> (length (Europeans.myMaturities es) \<le> length qs
        \<and> length (Europeans.myStrikes es) = length (Europeans.myMaturities es)
        \<and> (\<forall>i < length (Europeans.myMaturities es).
              forwards (qs ! i) \<noteq> [] \<and> numeraire (qs ! i) \<noteq> 0)
        \<and> sum_list (map length (Europeans.myStrikes es)) \<le> length ps \<longrightarrow>
      Europeans_payoffs es qs ps
      = Inr (strip_spec qs (Europeans.myStrikes es) [0..<length (Europeans.myMaturities es)]
             @ drop (sum_list (map length (Europeans.myStrikes es))) ps))
   \<and> Europeans_payoffs (es \<lparr> Europeans.myLabels := ls, Europeans.myDataline := dl \<rparr>) qs ps
       = Europeans_payoffs es qs ps
   \<and> (qb \<noteq> [] \<and> (\<forall>s \<in> set qb. forwards s \<noteq> [])
        \<and> (\<forall>i < length qb - 1. libors (qb ! i) \<noteq> [] \<and> numeraire (qb ! (i + 1)) \<noteq> 0)
        \<and> numeraire (last qb) \<noteq> 0
        \<and> length qb - 1 \<le> length (ContingentBond.myDt b) \<and> pb \<noteq> []
        \<and> (spot (hd qb) * ContingentBond.mySmooth b \<noteq> 0
             \<or> (\<forall>i < length qb - 1. spot (qb ! (i + 1)) \<noteq> spot (qb ! i))) \<longrightarrow>
      ContingentBond_payoffs b qb pb
      = Inr (pb[0 :=
          (\<Sum>i = 0..<length qb - 1.
              digital_spec (spot (hd qb) * ContingentBond.mySmooth b)
                (spot (qb ! i)) (spot (qb ! (i + 1)))
              * (libors (qb ! i) ! 0 + ContingentBond.myCpn b)
              * (ContingentBond.myDt b ! i) / numeraire (qb ! (i + 1)))
          + 1 / numeraire (last qb)]))
   \<and> ContingentBond_payoffs (b \<lparr> ContingentBond.myTimeline := ts,
          ContingentBond.myDataline := dl, ContingentBond.myLabels := ls \<rparr>) qb pb
       = ContingentBond_payoffs b qb pb"
proof (intro conjI impI)
  assume "forwards s \<noteq> [] \<and> discounts s \<noteq> [] \<and> numeraire s \<noteq> 0 \<and> pe \<noteq> []"
  then show "European_payoffs e (s # rest) pe
      = Inr (pe[0 := max (forwards s ! 0 - European.myStrike e) 0
                      * (discounts s ! 0) / numeraire s])"
    by (simp add: European_payoffs_def)
next
  show "European_payoffs (e \<lparr> European.myTimeline := ts, European.myDataline := dl,
          European.myLabels := ls \<rparr>) qe pe = European_payoffs e qe pe"
    by (simp add: European_payoffs_def)
next
  assume "qu \<noteq> [] \<and> (\<forall>s \<in> set qu. forwards s \<noteq> []) \<and> numeraire (last qu) \<noteq> 0
        \<and> 2 \<le> length pu"
  then show "UOC_payoffs u qu pu
      = Inr (pu[1 := max (spot (last qu) - UOC.myStrike u) 0 / numeraire (last qu),
                0 := alive_spec (UOC.myBarrier u) (spot (hd qu) * UOC.mySmooth u) 1 (map spot qu)
                     * (max (spot (last qu) - UOC.myStrike u) 0 / numeraire (last qu))])"
    by (intro UOC_payoffs_eval) blast+
next
  show "UOC_payoffs (u \<lparr> UOC.myTimeline := ts, UOC.myDataline := dl, UOC.myLabels := ls \<rparr>) qu pu
       = UOC_payoffs u qu pu"
    by (simp add: UOC_payoffs_def)
next
  assume "length (Europeans.myMaturities es) \<le> length qs
        \<and> length (Europeans.myStrikes es) = length (Europeans.myMaturities es)
        \<and> (\<forall>i < length (Europeans.myMaturities es).
              forwards (qs ! i) \<noteq> [] \<and> numeraire (qs ! i) \<noteq> 0)
        \<and> sum_list (map length (Europeans.myStrikes es)) \<le> length ps"
  then show "Europeans_payoffs es qs ps
      = Inr (strip_spec qs (Europeans.myStrikes es) [0..<length (Europeans.myMaturities es)]
             @ drop (sum_list (map length (Europeans.myStrikes es))) ps)"
    by (intro Europeans_payoffs_eval_wide) blast+
next
  show "Europeans_payoffs (es \<lparr> Europeans.myLabels := ls, Europeans.myDataline := dl \<rparr>) qs ps
       = Europeans_payoffs es qs ps"
    by (simp add: Europeans_payoffs_def Europeans_loop_labels)
next
  assume "qb \<noteq> [] \<and> (\<forall>s \<in> set qb. forwards s \<noteq> [])
        \<and> (\<forall>i < length qb - 1. libors (qb ! i) \<noteq> [] \<and> numeraire (qb ! (i + 1)) \<noteq> 0)
        \<and> numeraire (last qb) \<noteq> 0
        \<and> length qb - 1 \<le> length (ContingentBond.myDt b) \<and> pb \<noteq> []
        \<and> (spot (hd qb) * ContingentBond.mySmooth b \<noteq> 0
             \<or> (\<forall>i < length qb - 1. spot (qb ! (i + 1)) \<noteq> spot (qb ! i)))"
  then show "ContingentBond_payoffs b qb pb
      = Inr (pb[0 :=
          (\<Sum>i = 0..<length qb - 1.
              digital_spec (spot (hd qb) * ContingentBond.mySmooth b)
                (spot (qb ! i)) (spot (qb ! (i + 1)))
              * (libors (qb ! i) ! 0 + ContingentBond.myCpn b)
              * (ContingentBond.myDt b ! i) / numeraire (qb ! (i + 1)))
          + 1 / numeraire (last qb)])"
    by (intro ContingentBond_payoffs_eval) blast+
next
  show "ContingentBond_payoffs (b \<lparr> ContingentBond.myTimeline := ts,
          ContingentBond.myDataline := dl, ContingentBond.myLabels := ls \<rparr>) qb pb
       = ContingentBond_payoffs b qb pb"
    by (simp add: ContingentBond_payoffs_def ContingentBond_loop_fields)
qed

theorem payoffs_unchecked_witness:
  "European_payoffs (European 100 1 1)
     [\<lparr> numeraire = 2, forwards = [120], discounts = [1], libors = [] \<rparr>, node 1 1] [0, 7, 9]
   = Inr [10, 7, 9]
   \<and> UOC_payoffs uoc_soft [node 80 1, node 95 1, node 120 2] [0, 0, 9] = Inr [0, 15, 9]
   \<and> Europeans_payoffs strip_pair [node 110 1, node 95 5, node 1 1] [0, 0, 0, 0, 8]
       = Inr [20, 10, 0, 0, 8]
   \<and> ContingentBond_payoffs bond_semi [coupon_node 100 (2 / 100) 1, coupon_node 120 0 2] [0, 7]
       = Inr [41 / 80, 7]"
proof -
  define s where "s = \<lparr> numeraire = 2, forwards = [120], discounts = [1], libors = [] \<rparr>"
  define qu where "qu = [node 80 1, node 95 1, node 120 2]"
  define qs where "qs = [node 110 1, node 95 5, node 1 1]"
  define qb where "qb = [coupon_node 100 (2 / 100) 1, coupon_node 120 0 2]"
  note all = payoffs_unchecked [where s = s and rest = "[node 1 1]" and pe = "[0, 7, 9]"
      and e = "European 100 1 1" and u = uoc_soft and qu = qu and pu = "[0, 0, 9]"
      and es = strip_pair and qs = qs and ps = "[0, 0, 0, 0, 8]"
      and b = bond_semi and qb = qb and pb = "[0, 7]"]
  have he: "forwards s \<noteq> [] \<and> discounts s \<noteq> [] \<and> numeraire s \<noteq> 0 \<and> [0 :: real, 7, 9] \<noteq> []"
    by (simp add: s_def)
  from all [THEN conjunct1, THEN mp, OF he]
  have e: "European_payoffs (European 100 1 1) [s, node 1 1] [0, 7, 9] = Inr [10, 7, 9]"
    by (simp add: s_def European_def)
  have hu: "qu \<noteq> [] \<and> (\<forall>s \<in> set qu. forwards s \<noteq> []) \<and> numeraire (last qu) \<noteq> 0
            \<and> 2 \<le> length [0 :: real, 0, 9]"
    by (simp add: qu_def node_def)
  from all [THEN conjunct2, THEN conjunct2, THEN conjunct1, THEN mp, OF hu]
  have u: "UOC_payoffs uoc_soft qu [0, 0, 9] = Inr [0, 15, 9]"
    by (simp add: qu_def node_def spot_def uoc_soft_def uoc_hard_def)
  have hs: "length (Europeans.myMaturities strip_pair) \<le> length qs
        \<and> length (Europeans.myStrikes strip_pair) = length (Europeans.myMaturities strip_pair)
        \<and> (\<forall>i < length (Europeans.myMaturities strip_pair).
              forwards (qs ! i) \<noteq> [] \<and> numeraire (qs ! i) \<noteq> 0)
        \<and> sum_list (map length (Europeans.myStrikes strip_pair)) \<le> length [0 :: real, 0, 0, 0, 8]"
    by (simp add: strip_pair_fields qs_def node_def All_less_Suc numeral_2_eq_2)
  have idx: "[0..<length (Europeans.myMaturities strip_pair)] = [0, Suc 0]"
    by (simp add: strip_pair_fields upt_rec)
  from all [THEN conjunct2, THEN conjunct2, THEN conjunct2, THEN conjunct2, THEN conjunct1,
      THEN mp, OF hs]
  have es: "Europeans_payoffs strip_pair qs [0, 0, 0, 0, 8] = Inr [20, 10, 0, 0, 8]"
    unfolding idx by (simp add: strip_pair_fields strip_spec_def qs_def node_def spot_def)
  have len: "length qb - 1 = Suc 0"
    by (simp add: qb_def)
  have hb: "qb \<noteq> [] \<and> (\<forall>s \<in> set qb. forwards s \<noteq> [])
        \<and> (\<forall>i < length qb - 1. libors (qb ! i) \<noteq> [] \<and> numeraire (qb ! (i + 1)) \<noteq> 0)
        \<and> numeraire (last qb) \<noteq> 0
        \<and> length qb - 1 \<le> length (ContingentBond.myDt bond_semi) \<and> [0 :: real, 7] \<noteq> []
        \<and> (spot (hd qb) * ContingentBond.mySmooth bond_semi \<noteq> 0
             \<or> (\<forall>i < length qb - 1. spot (qb ! (i + 1)) \<noteq> spot (qb ! i)))"
    unfolding len by (simp add: qb_def coupon_node_def spot_def bond_semi_def)
  from all [THEN conjunct2, THEN conjunct2, THEN conjunct2, THEN conjunct2, THEN conjunct2,
      THEN conjunct2, THEN conjunct1, THEN mp, OF hb]
  have b: "ContingentBond_payoffs bond_semi qb [0, 7] = Inr [41 / 80, 7]"
    unfolding len
    by (simp add: qb_def coupon_node_def spot_def bond_semi_def digital_spec_def)
  from e u es b show ?thesis
    by (simp add: s_def qu_def qs_def qb_def)
qed

text \<open>
  Each product on a path and a buffer that do not fit it: a European (one timeline node,
  one label) on two nodes and two slots, an up-and-out call (two nodes, two labels) on
  three nodes and three slots, a strip (two maturities, three labels) on three nodes and
  four slots, a contingent bond (three nodes, one label) on two nodes and two slots. Every
  call returns normally, the further nodes unread and the further slots untouched.
\<close>

theorem payoffs_loud_counterexample:
  "length (European.myTimeline (European 100 1 1)) = 1
   \<and> length (European.myLabels (European 100 1 1)) = 1
   \<and> European_payoffs (European 100 1 1)
        [\<lparr> numeraire = 2, forwards = [110], discounts = [1], libors = [] \<rparr>,
         \<lparr> numeraire = 1, forwards = [150], discounts = [1], libors = [] \<rparr>] [0, 7]
      = Inr [5, 7]
   \<and> length (UOC.myTimeline uoc_soft) = 2 \<and> length (UOC.myLabels uoc_soft) = 2
   \<and> UOC_payoffs uoc_soft [node 80 1, node 100 1, node 95 1] [0, 0, 9] = Inr [65 / 32, 5, 9]
   \<and> length (Europeans.myMaturities strip_pair) = 2
   \<and> length (Europeans.myLabels strip_pair) = 3
   \<and> Europeans_payoffs strip_pair [node 100 1, node 105 2, node 300 1] [0, 0, 0, 9]
      = Inr [10, 0, 5, 9]
   \<and> length (ContingentBond.myTimeline bond_semi) = 3
   \<and> length (ContingentBond.myLabels bond_semi) = 1
   \<and> ContingentBond_payoffs bond_semi [coupon_node 100 (2 / 100) 1, coupon_node 100 0 1] [0, 7]
      = Inr [81 / 80, 7]"
proof -
  have "European_payoffs (European 100 1 1)
        [\<lparr> numeraire = 2, forwards = [110], discounts = [1], libors = [] \<rparr>,
         \<lparr> numeraire = 1, forwards = [150], discounts = [1], libors = [] \<rparr>] [0, 7]
      = Inr [5, 7]"
    by (simp add: European_def European_payoffs_def)
  moreover have "UOC_payoffs uoc_soft [node 80 1, node 100 1, node 95 1] [0, 0, 9]
                 = Inr [65 / 32, 5, 9]"
    by (simp add: UOC_payoffs_def uoc_soft_def uoc_hard_def node_def)
  moreover have "ContingentBond_payoffs bond_semi
                   [coupon_node 100 (2 / 100) 1, coupon_node 100 0 1] [0, 7] = Inr [81 / 80, 7]"
    by (simp add: ContingentBond_payoffs_def ContingentBond_period_def ContingentBond_digital_def
        bond_semi_def coupon_node_def)
  ultimately show ?thesis
    by (simp add: strip_pair_fields strip_pair_wide)
      (simp add: European_def uoc_soft_def uoc_hard_def bond_semi_def)
qed

end
